theory Spec2Isabelle
  imports Complex_Main "HOL-Library.Multiset" "HOL-Library.Sublist"
begin

section \<open>Error values (src/shared/types.ts)\<close>

text \<open>
  A thrown JavaScript error is a value: its class, its message and the two optional
  fields of \<open>ExtensionError\<close>. \<open>AuthenticationError\<close>, \<open>NetworkError\<close> and
  \<open>ValidationError\<close> extend \<open>ExtensionError\<close>; the repository declares no other
  error class. \<open>Error\<close>, \<open>TypeError\<close>, \<open>SyntaxError\<close> and \<open>RangeError\<close> are the
  built-in classes.
\<close>

datatype error_class =
    Error
  | TypeError
  | ExtensionError
  | AuthenticationError
  | NetworkError
  | ValidationError
  | SyntaxError
  | RangeError

record js_error =
  cls :: error_class
  message :: string
  code :: "string option"
  statusCode :: "nat option"

definition new_Error :: "string \<Rightarrow> js_error" where
  "new_Error m = \<lparr> cls = Error, message = m, code = None, statusCode = None \<rparr>"

definition new_ExtensionError :: "string \<Rightarrow> string option \<Rightarrow> nat option \<Rightarrow> js_error" where
  "new_ExtensionError m c st = \<lparr> cls = ExtensionError, message = m, code = c, statusCode = st \<rparr>"

definition new_AuthenticationError :: "string \<Rightarrow> js_error" where
  "new_AuthenticationError m =
     \<lparr> cls = AuthenticationError, message = m, code = Some ''AUTH_ERROR'', statusCode = Some 401 \<rparr>"

definition new_NetworkError :: "string \<Rightarrow> js_error" where
  "new_NetworkError m =
     \<lparr> cls = NetworkError, message = m, code = Some ''NETWORK_ERROR'', statusCode = None \<rparr>"

definition new_ValidationError :: "string \<Rightarrow> js_error" where
  "new_ValidationError m =
     \<lparr> cls = ValidationError, message = m, code = Some ''VALIDATION_ERROR'', statusCode = Some 400 \<rparr>"

definition instanceof_ExtensionError :: "js_error \<Rightarrow> bool" where
  "instanceof_ExtensionError e =
     (cls e = ExtensionError \<or> cls e = AuthenticationError \<or> cls e = NetworkError
      \<or> cls e = ValidationError)"

section \<open>Rate limiter (src/shared/rate-limiter.ts)\<close>

text \<open>
  JavaScript numbers are modelled as exact reals; priorities are integers. The clock
  reading \<open>Date.now()\<close> is an argument of every operation that reads it. A queued
  request keeps the thunk \<open>fn\<close> as a value of an arbitrary type; the caller's
  \<open>resolve\<close>/\<open>reject\<close> pair is the promise of the \<open>throttle\<close> call and
  carries no data the limiter reads.
\<close>

record RateLimiterConfig =
  cfg_requestsPerMinute :: "real option"
  cfg_maxQueueSize :: "real option"
  cfg_minRequestDelay :: "real option"

record 'f QueuedRequest =
  fn :: 'f
  priority :: int
  timestamp :: real

record 'f RateLimiter =
  requestsPerMinute :: real
  maxQueueSize :: real
  minRequestDelay :: real
  tokens :: real
  maxTokens :: real
  lastRefill :: real
  queue :: "'f QueuedRequest list"
  processing :: bool
  totalRequests :: nat
  delayedRequests :: nat
  lastRequestTime :: real

text \<open>\<open>x || d\<close> on an optional number: \<open>undefined\<close> and \<open>0\<close> are falsy.\<close>

definition or_default :: "real option \<Rightarrow> real \<Rightarrow> real" where
  "or_default x d = (case x of None \<Rightarrow> d | Some v \<Rightarrow> if v = 0 then d else v)"

definition new_RateLimiter :: "RateLimiterConfig \<Rightarrow> real \<Rightarrow> 'f RateLimiter" where
  "new_RateLimiter config now =
     (let rpm = or_default (cfg_requestsPerMinute config) 60 in
      \<lparr> requestsPerMinute = rpm,
        maxQueueSize = or_default (cfg_maxQueueSize config) 100,
        minRequestDelay = or_default (cfg_minRequestDelay config) 0,
        tokens = rpm,
        maxTokens = rpm,
        lastRefill = now,
        queue = [],
        processing = False,
        totalRequests = 0,
        delayedRequests = 0,
        lastRequestTime = 0 \<rparr>)"

definition globalRateLimiter :: "real \<Rightarrow> 'f RateLimiter" where
  "globalRateLimiter now =
     new_RateLimiter \<lparr> cfg_requestsPerMinute = Some 60, cfg_maxQueueSize = Some 100,
                       cfg_minRequestDelay = Some 100 \<rparr> now"

definition refillTokens :: "real \<Rightarrow> 'f RateLimiter \<Rightarrow> 'f RateLimiter" where
  "refillTokens now s =
     (let elapsed = now - lastRefill s;
          tokensToAdd = (elapsed * requestsPerMinute s) / 60000
      in if tokensToAdd \<ge> 1
         then s\<lparr> tokens := min (maxTokens s) (tokens s + of_int \<lfloor>tokensToAdd\<rfloor>),
                 lastRefill := now \<rparr>
         else s)"

text \<open>
  The numbers that \<open>updateFromHeaders\<close> receives come from \<open>parseInt\<close> and may be
  \<open>NaN\<close>. Its first statement builds the log line with
  \<open>new Date(reset * 1000).toISOString()\<close>, which throws a \<open>RangeError\<close> unless
  \<open>reset * 1000\<close> is a time value of \<open>Date\<close>, a number of at most \<open>8.64e15\<close> in
  absolute value; the argument is evaluated in every build, before the tokens are
  touched. A comparison with \<open>NaN\<close> is false. The engines word the message of the
  \<open>RangeError\<close> differently; none of them has \<open>timed out\<close> in it.
\<close>

datatype js_number = NaN | Num real

definition valid_time :: "js_number \<Rightarrow> bool" where
  "valid_time reset =
     (case reset of NaN \<Rightarrow> False | Num t \<Rightarrow> \<bar>t * 1000\<bar> \<le> 8640000000000000)"

definition invalid_time_error :: js_error where
  "invalid_time_error =
     \<lparr> cls = RangeError, message = ''Invalid time value'', code = None, statusCode = None \<rparr>"

definition updateFromHeaders ::
  "js_number \<Rightarrow> js_number \<Rightarrow> js_number \<Rightarrow> 'f RateLimiter \<Rightarrow> js_error + 'f RateLimiter" where
  "updateFromHeaders limit remaining reset s =
     (if \<not> valid_time reset then Inl invalid_time_error
      else (case (limit, remaining) of
              (Num l, Num r) \<Rightarrow>
                if r < l * (1 / 10)
                then Inr (s\<lparr> tokens := min (tokens s) r \<rparr>)
                else Inr s
            | _ \<Rightarrow> Inr s))"

definition reset_limiter :: "real \<Rightarrow> 'f RateLimiter \<Rightarrow> 'f RateLimiter" where
  "reset_limiter now s =
     s\<lparr> queue := [], tokens := maxTokens s, lastRefill := now, processing := False \<rparr>"

definition isThrottled :: "'f RateLimiter \<Rightarrow> bool" where
  "isThrottled s = (length (queue s) > 0)"

definition getQueueSize :: "'f RateLimiter \<Rightarrow> nat" where
  "getQueueSize s = length (queue s)"

subsection \<open>The sort of the queue\<close>

text \<open>
  \<open>Array.prototype.sort\<close> with a comparator is a stable sort: an element moves
  behind another one only where the comparator is positive. It is modelled as the
  insertion sort with that property.
\<close>

fun js_insert :: "('a \<Rightarrow> 'a \<Rightarrow> int) \<Rightarrow> 'a \<Rightarrow> 'a list \<Rightarrow> 'a list" where
  "js_insert cmp x [] = [x]"
| "js_insert cmp x (y # ys) =
     (if cmp x y \<le> 0 then x # y # ys else y # js_insert cmp x ys)"

definition js_sort :: "('a \<Rightarrow> 'a \<Rightarrow> int) \<Rightarrow> 'a list \<Rightarrow> 'a list" where
  "js_sort cmp xs = foldr (js_insert cmp) xs []"

definition by_priority :: "'f QueuedRequest \<Rightarrow> 'f QueuedRequest \<Rightarrow> int" where
  "by_priority a b = priority b - priority a"

subsection \<open>The drain loop\<close>

text \<open>
  \<open>processQueue\<close> is an asynchronous loop. It is modelled by the code that runs
  between two suspension points: \<open>processQueue_iter\<close> is the loop from its head to the
  first \<open>await\<close>, \<open>dispatch\<close> is the part from the sort to the call of the thunk.
  The value of type \<open>wake\<close> says where the loop suspends.
\<close>

datatype 'f wake =
    Done
  | WaitToken real
  | WaitDelay real
  | Run "'f QueuedRequest"

definition dispatch :: "real \<Rightarrow> 'f RateLimiter \<Rightarrow> 'f wake \<times> 'f RateLimiter" where
  "dispatch now s =
     (case js_sort by_priority (queue s) of
        [] \<Rightarrow> (Done, s\<lparr> queue := [], processing := False \<rparr>)
      | request # rest \<Rightarrow>
          (Run request,
           s\<lparr> queue := rest,
              tokens := tokens s - 1,
              lastRequestTime := now,
              totalRequests := totalRequests s + 1,
              delayedRequests :=
                (if now - timestamp request > 100 then delayedRequests s + 1
                 else delayedRequests s) \<rparr>))"

definition processQueue_iter :: "real \<Rightarrow> 'f RateLimiter \<Rightarrow> 'f wake \<times> 'f RateLimiter" where
  "processQueue_iter now s =
     (if \<not> (length (queue s) > 0) then (Done, s\<lparr> processing := False \<rparr>)
      else
        let s1 = refillTokens now s in
        if tokens s1 < 1
        then (WaitToken (of_int \<lceil>1 / (requestsPerMinute s1 / 60000)\<rceil>), s1)
        else if minRequestDelay s1 > 0 \<and> now - lastRequestTime s1 < minRequestDelay s1
        then (WaitDelay (minRequestDelay s1 - (now - lastRequestTime s1)), s1)
        else dispatch now s1)"

definition processQueue :: "real \<Rightarrow> 'f RateLimiter \<Rightarrow> 'f wake option \<times> 'f RateLimiter" where
  "processQueue now s =
     (if processing s then (None, s)
      else let (w, s') = processQueue_iter now (s\<lparr> processing := True \<rparr>)
           in (Some w, s'))"

text \<open>
  \<open>throttle\<close>: the rejection of a full queue is the value \<open>Inl\<close>; otherwise the
  request is pushed and \<open>processQueue\<close> runs up to its first suspension point.
\<close>

definition queue_full_message :: string where
  "queue_full_message = ''Rate limiter queue is full. Please try again later.''"

definition throttle ::
  "'f \<Rightarrow> int \<Rightarrow> real \<Rightarrow> 'f RateLimiter \<Rightarrow> (js_error + 'f wake option) \<times> 'f RateLimiter" where
  "throttle f prio now s =
     (if real (length (queue s)) \<ge> maxQueueSize s
      then (Inl (new_Error queue_full_message), s)
      else
        let request = \<lparr> fn = f, priority = prio, timestamp = now \<rparr>;
            (w, s') = processQueue now (s\<lparr> queue := queue s @ [request] \<rparr>)
        in (Inr w, s'))"

subsection \<open>Sequences of operations\<close>

text \<open>
  The operations that change the limiter, as events: a \<open>throttle\<close> call, an
  iteration of the drain loop from its head, the resumption of the loop after the
  minimum-delay sleep (\<open>OpDispatch\<close>), a bare refill, \<open>updateFromHeaders\<close> and
  \<open>reset\<close>. An \<open>updateFromHeaders\<close> call that throws leaves the limiter as it was.
\<close>

datatype 'f limiter_op =
    OpThrottle 'f int real
  | OpIterate real
  | OpDispatch real
  | OpRefill real
  | OpUpdate js_number js_number js_number
  | OpReset real

fun apply_op :: "'f limiter_op \<Rightarrow> 'f RateLimiter \<Rightarrow> 'f RateLimiter" where
  "apply_op (OpThrottle f prio now) s = snd (throttle f prio now s)"
| "apply_op (OpIterate now) s = snd (processQueue_iter now s)"
| "apply_op (OpDispatch now) s = snd (dispatch now s)"
| "apply_op (OpRefill now) s = refillTokens now s"
| "apply_op (OpUpdate limit remaining reset) s =
     (case updateFromHeaders limit remaining reset s of Inl e \<Rightarrow> s | Inr s' \<Rightarrow> s')"
| "apply_op (OpReset now) s = reset_limiter now s"

fun run_ops :: "'f limiter_op list \<Rightarrow> 'f RateLimiter \<Rightarrow> 'f RateLimiter" where
  "run_ops [] s = s"
| "run_ops (x # xs) s = run_ops xs (apply_op x s)"

text \<open>
  An operation is \<open>guarded\<close> in a state when a header update reports no negative
  remaining count and a resumption after the delay sleep finds the token that the
  loop's check saw before the sleep.
\<close>

fun guarded_op :: "'f RateLimiter \<Rightarrow> 'f limiter_op \<Rightarrow> bool" where
  "guarded_op s (OpUpdate limit remaining reset) =
     (case remaining of NaN \<Rightarrow> True | Num r \<Rightarrow> 0 \<le> r)"
| "guarded_op s (OpDispatch now) = (1 \<le> tokens s)"
| "guarded_op s _ = True"

fun guarded :: "'f RateLimiter \<Rightarrow> 'f limiter_op list \<Rightarrow> bool" where
  "guarded s [] = True"
| "guarded s (x # xs) = (guarded_op s x \<and> guarded (apply_op x s) xs)"

text \<open>
  The drain loop over a schedule of clock readings, one for each resumption; the
  result is the list of requests whose thunk was called, in the order of the calls.
  No request arrives while the loop runs.
\<close>

fun processQueue_loop :: "real list \<Rightarrow> 'f RateLimiter \<Rightarrow> 'f QueuedRequest list \<times> 'f RateLimiter" where
  "processQueue_loop [] s = ([], s)"
| "processQueue_loop (t # ts) s =
     (case processQueue_iter t s of
        (Done, s') \<Rightarrow> ([], s')
      | (WaitToken ms, s') \<Rightarrow> processQueue_loop ts s'
      | (Run r, s') \<Rightarrow> (let (rs, s'') = processQueue_loop ts s' in (r # rs, s''))
      | (WaitDelay ms, s') \<Rightarrow>
          (case ts of
             [] \<Rightarrow> ([], s')
           | t' # ts' \<Rightarrow>
               (case dispatch t' s' of
                  (Run r, s'') \<Rightarrow> (let (rs, s3) = processQueue_loop ts' s'' in (r # rs, s3))
                | (w, s'') \<Rightarrow> ([], s''))))"

text \<open>Example states: an emptied bucket, and a busy limiter with three queued requests.\<close>

definition refill_example :: "unit RateLimiter" where
  "refill_example = (globalRateLimiter 0)\<lparr> tokens := 0 \<rparr>"

definition busy_example :: "string RateLimiter" where
  "busy_example =
     run_ops [OpThrottle ''first'' 0 1000, OpThrottle ''a'' 1 1001, OpThrottle ''b'' 5 1002,
              OpThrottle ''c'' 3 1003] (globalRateLimiter 0)"

definition tie_example :: "string RateLimiter" where
  "tie_example =
     run_ops [OpThrottle ''first'' 0 1000, OpThrottle ''A'' 2 1001, OpThrottle ''B'' 2 1002]
       (globalRateLimiter 0)"

definition full_example :: "string RateLimiter" where
  "full_example =
     run_ops [OpThrottle ''first'' 0 1000, OpThrottle ''a'' 0 1001, OpThrottle ''b'' 0 1002]
       (new_RateLimiter \<lparr> cfg_requestsPerMinute = Some 60, cfg_maxQueueSize = Some 2,
                          cfg_minRequestDelay = None \<rparr> 0)"

section \<open>Request deduplicator (src/shared/request-deduplicator.ts)\<close>

text \<open>
  A promise is an entry of a table; its index is its identity. An entry records the
  supplier that was called to create it, the key that its \<open>finally\<close> callback
  removes, and its outcome once it has settled. The promise that \<open>dedupe\<close> registers
  is the supplier's promise with the cleanup attached: it settles with the supplier's
  outcome, after the cleanup has run. The two \<open>Map\<close>s are maps.
\<close>

record ('f, 'o) promise =
  supplier :: 'f
  cleanup_key :: string
  outcome :: "'o option"

record ('f, 'o) RequestDeduplicator =
  pending :: "string \<rightharpoonup> nat"
  requestCounts :: "string \<rightharpoonup> nat"
  promises :: "('f, 'o) promise list"

definition new_RequestDeduplicator :: "('f, 'o) RequestDeduplicator" where
  "new_RequestDeduplicator = \<lparr> pending = Map.empty, requestCounts = Map.empty, promises = [] \<rparr>"

text \<open>\<open>requestCounts.get(key) || 1\<close>: a missing count and the count \<open>0\<close> are falsy.\<close>

definition count_or_1 :: "nat option \<Rightarrow> nat" where
  "count_or_1 c = (case c of None \<Rightarrow> 1 | Some n \<Rightarrow> if n = 0 then 1 else n)"

definition dedupe ::
  "string \<Rightarrow> 'f \<Rightarrow> ('f, 'o) RequestDeduplicator \<Rightarrow> nat \<times> ('f, 'o) RequestDeduplicator" where
  "dedupe key f d =
     (case pending d key of
        Some p \<Rightarrow>
          (p, d\<lparr> requestCounts := (requestCounts d)(key \<mapsto> count_or_1 (requestCounts d key) + 1) \<rparr>)
      | None \<Rightarrow>
          (let p = length (promises d) in
           (p, d\<lparr> requestCounts := (requestCounts d)(key \<mapsto> 1),
                  promises := promises d @ [\<lparr> supplier = f, cleanup_key = key, outcome = None \<rparr>],
                  pending := (pending d)(key \<mapsto> p) \<rparr>)))"

text \<open>
  The supplier's promise \<open>p\<close> settles with outcome \<open>out\<close>: the \<open>finally\<close> callback
  deletes the key from both maps, whatever is registered under it, and the callers see
  the outcome. A promise settles once.
\<close>

definition settle ::
  "nat \<Rightarrow> 'o \<Rightarrow> ('f, 'o) RequestDeduplicator \<Rightarrow> ('f, 'o) RequestDeduplicator" where
  "settle p out d =
     (if p < length (promises d) \<and> outcome (promises d ! p) = None
      then let key = cleanup_key (promises d ! p) in
           d\<lparr> pending := (pending d)(key := None),
              requestCounts := (requestCounts d)(key := None),
              promises := (promises d)[p := (promises d ! p)\<lparr> outcome := Some out \<rparr>] \<rparr>
      else d)"

definition isPending :: "string \<Rightarrow> ('f, 'o) RequestDeduplicator \<Rightarrow> bool" where
  "isPending key d = (pending d key \<noteq> None)"

definition getPendingCount :: "('f, 'o) RequestDeduplicator \<Rightarrow> nat" where
  "getPendingCount d = card (dom (pending d))"

definition clear :: "('f, 'o) RequestDeduplicator \<Rightarrow> ('f, 'o) RequestDeduplicator" where
  "clear d = d\<lparr> pending := Map.empty, requestCounts := Map.empty \<rparr>"

text \<open>What the holder of promise \<open>p\<close> has observed: nothing yet, or the outcome.\<close>

definition observed :: "nat \<Rightarrow> ('f, 'o) RequestDeduplicator \<Rightarrow> 'o option" where
  "observed p d = (if p < length (promises d) then outcome (promises d ! p) else None)"

text \<open>The suppliers called so far for a key, in the order of the calls.\<close>

definition invoked :: "string \<Rightarrow> ('f, 'o) RequestDeduplicator \<Rightarrow> 'f list" where
  "invoked key d = map supplier (filter (\<lambda>pr. cleanup_key pr = key) (promises d))"

subsection \<open>Interleavings\<close>

text \<open>
  The event loop runs one piece of code at a time; an interleaving is a list of events.
  \<open>returned key evs d\<close> lists the promises that the \<open>dedupe\<close> calls for \<open>key\<close> return
  while \<open>evs\<close> runs from \<open>d\<close>.
\<close>

datatype ('f, 'o) dedup_event =
    Dedupe string 'f
  | Settle nat 'o
  | Clear

fun dedup_step :: "('f, 'o) dedup_event \<Rightarrow> ('f, 'o) RequestDeduplicator \<Rightarrow> ('f, 'o) RequestDeduplicator" where
  "dedup_step (Dedupe key f) d = snd (dedupe key f d)"
| "dedup_step (Settle p out) d = settle p out d"
| "dedup_step Clear d = clear d"

fun dedup_run :: "('f, 'o) dedup_event list \<Rightarrow> ('f, 'o) RequestDeduplicator \<Rightarrow> ('f, 'o) RequestDeduplicator" where
  "dedup_run [] d = d"
| "dedup_run (ev # evs) d = dedup_run evs (dedup_step ev d)"

fun returned :: "string \<Rightarrow> ('f, 'o) dedup_event list \<Rightarrow> ('f, 'o) RequestDeduplicator \<Rightarrow> nat list" where
  "returned key [] d = []"
| "returned key (Dedupe key' f # evs) d =
     (if key' = key then fst (dedupe key' f d) # returned key evs (dedup_step (Dedupe key' f) d)
      else returned key evs (dedup_step (Dedupe key' f) d))"
| "returned key (ev # evs) d = returned key evs (dedup_step ev d)"

text \<open>
  While the promise registered under \<open>key\<close> is unsettled and registered: no event
  clears the maps, and no promise created for \<open>key\<close> settles.
\<close>

fun undisturbed :: "string \<Rightarrow> ('f, 'o) RequestDeduplicator \<Rightarrow> ('f, 'o) dedup_event list \<Rightarrow> bool" where
  "undisturbed key d [] = True"
| "undisturbed key d (Clear # evs) = False"
| "undisturbed key d (Settle p out # evs) =
     ((p < length (promises d) \<longrightarrow> cleanup_key (promises d ! p) \<noteq> key)
      \<and> undisturbed key (settle p out d) evs)"
| "undisturbed key d (Dedupe key' f # evs) = undisturbed key (snd (dedupe key' f d)) evs"

text \<open>Promise \<open>p\<close> is the unsettled promise registered under \<open>key\<close>.\<close>

definition registered :: "string \<Rightarrow> nat \<Rightarrow> ('f, 'o) RequestDeduplicator \<Rightarrow> bool" where
  "registered key p d =
     (pending d key = Some p \<and> p < length (promises d)
      \<and> cleanup_key (promises d ! p) = key \<and> outcome (promises d ! p) = None)"

text \<open>The key is unregistered, or registered to a promise created as the \<open>n\<close>-th or later.\<close>

definition newer :: "string \<Rightarrow> nat \<Rightarrow> ('f, 'o) RequestDeduplicator \<Rightarrow> bool" where
  "newer key n d =
     (n \<le> length (promises d) \<and> (case pending d key of None \<Rightarrow> True | Some q \<Rightarrow> n \<le> q))"

text \<open>Example: a fresh deduplicator with suppliers and outcomes named by strings.\<close>

definition dedup_example :: "(string, string) RequestDeduplicator" where
  "dedup_example = new_RequestDeduplicator"

section \<open>API client (src/background/api.ts)\<close>

subsection \<open>Constants (src/shared/constants.ts)\<close>

definition DEFAULT_API_BASE_URL :: string where
  "DEFAULT_API_BASE_URL = ''https://ref-lex.site''"

definition ENDPOINT_CSRF_TOKEN :: string where
  "ENDPOINT_CSRF_TOKEN = ''/api/csrf-token''"

definition ENDPOINT_ACCOUNT :: string where
  "ENDPOINT_ACCOUNT = ''/api/account''"

definition ENDPOINT_PROJECTS :: string where
  "ENDPOINT_PROJECTS = ''/api/projects''"

definition REQUEST_TIMEOUT_MS :: nat where
  "REQUEST_TIMEOUT_MS = 30000"

definition CSRF_TIMEOUT_MS :: nat where
  "CSRF_TIMEOUT_MS = 10000"

definition UNAUTHORIZED :: nat where
  "UNAUTHORIZED = 401"

definition FORBIDDEN :: nat where
  "FORBIDDEN = 403"

definition BAD_REQUEST :: nat where
  "BAD_REQUEST = 400"

definition TOO_MANY_REQUESTS :: nat where
  "TOO_MANY_REQUESTS = 429"

definition AUTH_REQUIRED :: string where
  "AUTH_REQUIRED = ''Please log in to use this feature''"

definition EMAIL_NOT_VERIFIED :: string where
  "EMAIL_NOT_VERIFIED = ''Please verify your email address before using the extension. Check your inbox for a verification email.''"

definition NETWORK_ERROR :: string where
  "NETWORK_ERROR = ''Unable to connect to Ref-Lex. Please check your internet connection and ensure the backend server is running.''"

definition SERVER_ERROR :: string where
  "SERVER_ERROR = ''The Ref-Lex server encountered an error. Please try again in a few moments.''"

definition REQUEST_TIMEOUT :: string where
  "REQUEST_TIMEOUT = ''The request took too long to complete. Please check your connection and try again.''"

definition RATE_LIMIT_EXCEEDED :: string where
  "RATE_LIMIT_EXCEEDED = ''You are making requests too quickly. Please wait a moment and try again.''"

definition KEY_CSRF_TOKEN :: string where
  "KEY_CSRF_TOKEN = ''csrf_token''"

definition KEY_API_BASE_URL :: string where
  "KEY_API_BASE_URL = ''api_base_url''"

subsection \<open>Strings\<close>

text \<open>
  String concatenation prints a natural number below \<open>10^21\<close> as its decimal digits
  (from there on JavaScript writes an exponent). The only number that the client prints
  this way is the timeout of a request, \<open>30000\<close> or \<open>10000\<close>.
\<close>

definition digit_char :: "nat \<Rightarrow> char" where
  "digit_char d = char_of (of_char CHR ''0'' + d)"

fun toString :: "nat \<Rightarrow> string" where
  "toString n =
     (if 10 \<le> n then toString (n div 10) @ [digit_char (n mod 10)] else [digit_char n])"

fun str_includes :: "string \<Rightarrow> string \<Rightarrow> bool" where
  "str_includes [] sub = (sub = [])"
| "str_includes (c # cs) sub = (prefix sub (c # cs) \<or> str_includes cs sub)"

text \<open>A string is truthy when it is present and not empty; \<open>a || b\<close> on strings.\<close>

definition truthy :: "string option \<Rightarrow> bool" where
  "truthy x = (case x of None \<Rightarrow> False | Some s \<Rightarrow> s \<noteq> [])"

definition str_or :: "string option \<Rightarrow> string \<Rightarrow> string" where
  "str_or x d = (case x of None \<Rightarrow> d | Some s \<Rightarrow> if s = [] then d else s)"

subsection \<open>Responses, requests and the world of the client\<close>

text \<open>
  A response carries its status, the result of \<open>response.json()\<close> (the decoded
  body, or the error it throws, whose message the engine words and may quote the body
  in) and the headers the client reads: \<open>X-CSRF-Token\<close> and the three rate-limit
  headers. A rate-limit header is \<open>None\<close> when it is missing or empty, else the number
  that \<open>parseInt\<close> makes of it, \<open>NaN\<close> included. The decoded body is a payload with
  the optional \<open>error\<close> and \<open>message\<close> fields, taken as strings.
\<close>

record 'd body =
  error_field :: "string option"
  message_field :: "string option"
  payload :: 'd

record 'd Response =
  status :: nat
  statusText :: string
  json :: "js_error + 'd body"
  hdr_csrf :: "string option"
  hdr_limit :: "js_number option"
  hdr_remaining :: "js_number option"
  hdr_reset :: "js_number option"

definition ok :: "'d Response \<Rightarrow> bool" where
  "ok r = (200 \<le> status r \<and> status r \<le> 299)"

record RateLimitInfo =
  rl_limit :: js_number
  rl_remaining :: js_number
  rl_reset :: js_number

definition parseRateLimitHeaders :: "'d Response \<Rightarrow> RateLimitInfo option" where
  "parseRateLimitHeaders r =
     (case (hdr_limit r, hdr_remaining r, hdr_reset r) of
        (Some l, Some m, Some t) \<Rightarrow> Some \<lparr> rl_limit = l, rl_remaining = m, rl_reset = t \<rparr>
      | _ \<Rightarrow> None)"

text \<open>\<open>fetch\<close> resolves with a response, is aborted by the timeout, or rejects.\<close>

datatype 'd fetch_result =
    Resp "'d Response"
  | AbortError
  | Failure js_error

datatype fetch_site = CsrfSite | ApiSite

record fetch_call =
  site :: fetch_site
  req_url :: string
  req_method :: "string option"
  req_headers :: "string \<rightharpoonup> string"
  req_body :: "string option"

datatype log_level = Warn | Err

text \<open>
  The world of the client: the module variable \<open>csrfToken\<close>, the extension's storage
  (taken as reliable), the cookie jar (\<open>None\<close> when \<open>cookies.getAll\<close> throws), the
  answers of the network to the successive calls of each call site, the log of the
  calls made, the global rate limiter and the console.
\<close>

record ('d, 'f) world =
  csrfToken :: "string option"
  storage :: "string \<rightharpoonup> string"
  rateLimitInfo :: "RateLimitInfo option"
  cookies :: "string list option"
  apiServer :: "nat \<Rightarrow> 'd fetch_result"
  csrfServer :: "nat \<Rightarrow> 'd fetch_result"
  fetchLog :: "fetch_call list"
  limiter :: "'f RateLimiter"
  console :: "(log_level \<times> string) list"

definition calls_at :: "fetch_site \<Rightarrow> ('d, 'f) world \<Rightarrow> fetch_call list" where
  "calls_at st w = filter (\<lambda>c. site c = st) (fetchLog w)"

definition getApiBaseUrl :: "('d, 'f) world \<Rightarrow> string" where
  "getApiBaseUrl w = str_or (storage w KEY_API_BASE_URL) DEFAULT_API_BASE_URL"

text \<open>
  \<open>fetchWithTimeout\<close>: the abort by the timer becomes an \<open>Error\<close> whose message says
  that the request timed out; any other rejection is thrown again.
\<close>

definition answer_of :: "nat \<Rightarrow> 'd fetch_result \<Rightarrow> js_error + 'd Response" where
  "answer_of timeoutMs a =
     (case a of
        Resp r \<Rightarrow> Inr r
      | AbortError \<Rightarrow>
          Inl (new_Error (''Request timed out after '' @ toString timeoutMs @ ''ms''))
      | Failure e \<Rightarrow> Inl e)"

definition fetchWithTimeout ::
  "fetch_call \<Rightarrow> nat \<Rightarrow> ('d, 'f) world \<Rightarrow> (js_error + 'd Response) \<times> ('d, 'f) world" where
  "fetchWithTimeout call timeoutMs w =
     (let answer = (case site call of CsrfSite \<Rightarrow> csrfServer w | ApiSite \<Rightarrow> apiServer w)
                     (length (calls_at (site call) w))
      in (answer_of timeoutMs answer, w\<lparr> fetchLog := fetchLog w @ [call] \<rparr>))"

subsection \<open>The anti-forgery token\<close>

definition fetchCsrfToken :: "('d, 'f) world \<Rightarrow> (js_error + string) \<times> ('d, 'f) world" where
  "fetchCsrfToken w =
     (let apiBaseUrl = getApiBaseUrl w;
          (res, w1) = fetchWithTimeout
             \<lparr> site = CsrfSite, req_url = apiBaseUrl @ ENDPOINT_CSRF_TOKEN,
               req_method = Some ''GET'', req_headers = Map.empty, req_body = None \<rparr>
             CSRF_TIMEOUT_MS w;
          thrown = (\<lambda>e w'. (Inl e, w'\<lparr> console := console w' @ [(Err, ''Error fetching CSRF token:'')] \<rparr>))
      in case res of
           Inl e \<Rightarrow> thrown e w1
         | Inr response \<Rightarrow>
             if \<not> ok response then thrown (new_AuthenticationError ''Failed to get CSRF token'') w1
             else if \<not> truthy (hdr_csrf response)
             then thrown (new_AuthenticationError ''CSRF token not found in response'') w1
             else (Inr (the (hdr_csrf response)),
                   w1\<lparr> csrfToken := hdr_csrf response,
                       storage := (storage w1)(KEY_CSRF_TOKEN \<mapsto> the (hdr_csrf response)) \<rparr>))"

definition getCsrfToken :: "('d, 'f) world \<Rightarrow> (js_error + string) \<times> ('d, 'f) world" where
  "getCsrfToken w =
     (if truthy (csrfToken w) then (Inr (the (csrfToken w)), w)
      else if truthy (storage w KEY_CSRF_TOKEN)
      then (Inr (the (storage w KEY_CSRF_TOKEN)), w\<lparr> csrfToken := storage w KEY_CSRF_TOKEN \<rparr>)
      else fetchCsrfToken w)"

definition clearCsrfToken :: "('d, 'f) world \<Rightarrow> ('d, 'f) world" where
  "clearCsrfToken w = w\<lparr> csrfToken := None, storage := (storage w)(KEY_CSRF_TOKEN := None) \<rparr>"

subsection \<open>The base request\<close>

text \<open>
  The options of \<open>apiRequest\<close>; the field \<open>http_method\<close> is the option \<open>method\<close>
  of the source. An option that the caller leaves out is \<open>None\<close>.
\<close>

record ApiRequestOptions =
  skipAuth :: "bool option"
  retryOn401 :: "bool option"
  http_method :: "string option"
  headers :: "string \<rightharpoonup> string"
  body :: "string option"

definition skip_auth :: "ApiRequestOptions \<Rightarrow> bool" where
  "skip_auth options = (case skipAuth options of None \<Rightarrow> False | Some b \<Rightarrow> b)"

definition retry_enabled :: "ApiRequestOptions \<Rightarrow> bool" where
  "retry_enabled options = (case retryOn401 options of None \<Rightarrow> True | Some b \<Rightarrow> b)"

text \<open>Lines 122 to 138: the session cookie, copied into the headers by hand.\<close>

definition attach_cookie ::
  "ApiRequestOptions \<Rightarrow> (string \<rightharpoonup> string) \<Rightarrow> ('d, 'f) world
   \<Rightarrow> (string \<rightharpoonup> string) \<times> ('d, 'f) world" where
  "attach_cookie options hs w =
     (if \<not> skip_auth options then
        (case cookies w of
           None \<Rightarrow> (hs, w\<lparr> console := console w @ [(Warn, ''Failed to get auth cookie:'')] \<rparr>)
         | Some [] \<Rightarrow> (hs, w)
         | Some (c # cs) \<Rightarrow> (hs(''Cookie'' \<mapsto> ''access_token_cookie='' @ c), w))
      else (hs, w))"

text \<open>Lines 140 to 148: the anti-forgery token for requests that are not \<open>GET\<close>.\<close>

definition needs_csrf :: "ApiRequestOptions \<Rightarrow> bool" where
  "needs_csrf options =
     (\<not> skip_auth options \<and> truthy (http_method options)
      \<and> http_method options \<noteq> Some ''GET'')"

definition csrf_warning :: "log_level \<times> string" where
  "csrf_warning = (Warn, ''Failed to get CSRF token, continuing without it:'')"

definition attach_csrf ::
  "ApiRequestOptions \<Rightarrow> (string \<rightharpoonup> string) \<Rightarrow> ('d, 'f) world
   \<Rightarrow> (string \<rightharpoonup> string) \<times> ('d, 'f) world" where
  "attach_csrf options hs w =
     (if needs_csrf options then
        (case getCsrfToken w of
           (Inr token, w') \<Rightarrow> (hs(''X-CSRF-Token'' \<mapsto> token), w')
         | (Inl e, w') \<Rightarrow> (hs, w'\<lparr> console := console w' @ [csrf_warning] \<rparr>))
      else (hs, w))"

text \<open>Lines 113 to 159: the request is composed and sent.\<close>

definition compose_request ::
  "string \<Rightarrow> ApiRequestOptions \<Rightarrow> ('d, 'f) world \<Rightarrow> fetch_call \<times> ('d, 'f) world" where
  "compose_request endpoint options w =
     (let apiBaseUrl = getApiBaseUrl w;
          url = apiBaseUrl @ endpoint;
          hs = [''Content-Type'' \<mapsto> ''application/json''] ++ headers options;
          (hs1, w1) = attach_cookie options hs w;
          (hs2, w2) = attach_csrf options hs1 w1
      in (\<lparr> site = ApiSite, req_url = url, req_method = http_method options, req_headers = hs2,
            req_body = body options \<rparr>, w2))"

definition send_request ::
  "string \<Rightarrow> ApiRequestOptions \<Rightarrow> ('d, 'f) world \<Rightarrow> (js_error + 'd Response) \<times> ('d, 'f) world" where
  "send_request endpoint options w =
     (let (call, w2) = compose_request endpoint options w
      in fetchWithTimeout call REQUEST_TIMEOUT_MS w2)"

text \<open>
  Lines 161 to 180: the rate-limit headers go to the limiter and then to the storage.
  When \<open>updateFromHeaders\<close> throws, nothing has been changed and the error goes to the
  \<open>catch\<close> block of \<open>apiRequest\<close>; a failure to store is caught on the spot.
\<close>

definition note_rate_limit ::
  "'d Response \<Rightarrow> ('d, 'f) world \<Rightarrow> js_error + ('d, 'f) world" where
  "note_rate_limit response w =
     (case parseRateLimitHeaders response of
        None \<Rightarrow> Inr w
      | Some rl \<Rightarrow>
          (case updateFromHeaders (rl_limit rl) (rl_remaining rl) (rl_reset rl) (limiter w) of
             Inl error \<Rightarrow> Inl error
           | Inr l \<Rightarrow> Inr (w\<lparr> limiter := l, rateLimitInfo := Some rl \<rparr>)))"

definition handleErrorResponse :: "'d Response \<Rightarrow> js_error" where
  "handleErrorResponse response =
     (let errorMessage =
            (case json response of
               Inr errorData \<Rightarrow>
                 str_or (error_field errorData)
                   (str_or (message_field errorData) (statusText response))
             | Inl error \<Rightarrow> statusText response)
      in if status response = UNAUTHORIZED
         then new_AuthenticationError (str_or (Some errorMessage) AUTH_REQUIRED)
         else if status response = FORBIDDEN
         then (if str_includes errorMessage ''email''
               then new_AuthenticationError EMAIL_NOT_VERIFIED
               else new_AuthenticationError errorMessage)
         else if status response = BAD_REQUEST
         then new_ValidationError errorMessage
         else if status response = TOO_MANY_REQUESTS
         then new_ExtensionError RATE_LIMIT_EXCEEDED (Some ''RATE_LIMIT'') (Some TOO_MANY_REQUESTS)
         else new_ExtensionError (str_or (Some errorMessage) SERVER_ERROR) (Some ''API_ERROR'')
                (Some (status response)))"

text \<open>Lines 196 to 214: the \<open>catch\<close> block.\<close>

definition catch_error :: "js_error \<Rightarrow> js_error" where
  "catch_error error =
     (if instanceof_ExtensionError error then error
      else if str_includes (message error) ''timed out'' then new_NetworkError REQUEST_TIMEOUT
      else if cls error = TypeError \<and> str_includes (message error) ''fetch''
      then new_NetworkError NETWORK_ERROR
      else new_ExtensionError SERVER_ERROR (Some ''UNKNOWN_ERROR'') None)"

function apiRequest ::
  "string \<Rightarrow> ApiRequestOptions \<Rightarrow> ('d, 'f) world \<Rightarrow> (js_error + 'd) \<times> ('d, 'f) world" where
  "apiRequest endpoint options w =
     (case send_request endpoint options w of
        (Inl error, w1) \<Rightarrow> (Inl (catch_error error), w1)
      | (Inr response, w1) \<Rightarrow>
          (case note_rate_limit response w1 of
             Inl error \<Rightarrow> (Inl (catch_error error), w1)
           | Inr w2 \<Rightarrow>
               if status response = UNAUTHORIZED \<and> retry_enabled options
               then apiRequest endpoint (options\<lparr> retryOn401 := Some False \<rparr>) (clearCsrfToken w2)
               else if \<not> ok response
               then (Inl (catch_error (handleErrorResponse response)), w2)
               else (case json response of
                       Inr data \<Rightarrow> (Inr (payload data), w2)
                     | Inl error \<Rightarrow> (Inl (catch_error error), w2))))"
  by pat_completeness auto
termination
  by (relation "measure (\<lambda>(endpoint, options, w). if retry_enabled options then 1 else 0)")
     (auto simp: retry_enabled_def)

subsection \<open>The read operations\<close>

record api_call =
  call_endpoint :: string
  call_options :: ApiRequestOptions

text \<open>
  The number that identifies a project is kept as the text that the template strings
  of the source print for it.
\<close>

datatype read_op =
    CheckAuthStatus
  | GetProjects
  | GetProject string
  | GetCategories string
  | GetReferences string

definition get_options :: ApiRequestOptions where
  "get_options = \<lparr> skipAuth = None, retryOn401 = None, http_method = Some ''GET'',
                   headers = Map.empty, body = None \<rparr>"

fun operationKey :: "read_op \<Rightarrow> string" where
  "operationKey CheckAuthStatus = ''auth:check''"
| "operationKey GetProjects = ''projects:list''"
| "operationKey (GetProject projectId) = ''project:'' @ projectId"
| "operationKey (GetCategories projectId) = ''categories:'' @ projectId"
| "operationKey (GetReferences projectId) = ''references:'' @ projectId"

fun read_endpoint :: "read_op \<Rightarrow> string" where
  "read_endpoint CheckAuthStatus = ENDPOINT_ACCOUNT"
| "read_endpoint GetProjects = ENDPOINT_PROJECTS"
| "read_endpoint (GetProject projectId) = ''/api/projects/'' @ projectId"
| "read_endpoint (GetCategories projectId) = ''/api/projects/'' @ projectId @ ''/categories''"
| "read_endpoint (GetReferences projectId) = ''/api/projects/'' @ projectId @ ''/references''"

definition read_call :: "read_op \<Rightarrow> api_call" where
  "read_call op = \<lparr> call_endpoint = read_endpoint op, call_options = get_options \<rparr>"

text \<open>
  The client with its deduplicator. A read operation is \<open>dedupe\<close> applied to the key
  and to the thunk that calls \<open>apiRequest\<close>; the call of the thunk creates the promise
  of that \<open>apiRequest\<close>, which \<open>complete_call\<close> runs to its end.
\<close>

record ('d, 'f) client =
  dedup :: "(api_call, js_error + 'd) RequestDeduplicator"
  world :: "('d, 'f) world"

definition call_read :: "read_op \<Rightarrow> ('d, 'f) client \<Rightarrow> nat \<times> ('d, 'f) client" where
  "call_read op c =
     (let (p, d) = dedupe (operationKey op) (read_call op) (dedup c) in (p, c\<lparr> dedup := d \<rparr>))"

fun call_read_n :: "read_op \<Rightarrow> nat \<Rightarrow> ('d, 'f) client \<Rightarrow> nat list \<times> ('d, 'f) client" where
  "call_read_n op 0 c = ([], c)"
| "call_read_n op (Suc n) c =
     (let (p, c1) = call_read op c; (ps, c2) = call_read_n op n c1 in (p # ps, c2))"

definition complete_call :: "nat \<Rightarrow> ('d, 'f) client \<Rightarrow> ('d, 'f) client" where
  "complete_call p c =
     (if p < length (promises (dedup c)) \<and> outcome (promises (dedup c) ! p) = None
      then let call = supplier (promises (dedup c) ! p);
               (result, w) = apiRequest (call_endpoint call) (call_options call) (world c)
           in c\<lparr> dedup := settle p result (dedup c), world := w \<rparr>
      else c)"

subsection \<open>Auxiliary notions\<close>

text \<open>
  What a step of the client leaves alone; a limiter that differs from another one by a
  lower token count only; a response whose rate-limit headers \<open>updateFromHeaders\<close> takes
  without throwing, and the world after they have been noted; and the result of a call
  that is not retried, for such a response: the \<open>catch\<close> block for a failed \<open>fetch\<close>,
  the classified error for a status outside 2xx, the decoded payload or the \<open>catch\<close>
  block for the error of \<open>response.json()\<close> otherwise.
\<close>

definition same_env :: "('d, 'f) world \<Rightarrow> ('d, 'f) world \<Rightarrow> bool" where
  "same_env w w' =
     (apiServer w' = apiServer w \<and> csrfServer w' = csrfServer w \<and> cookies w' = cookies w
      \<and> limiter w' = limiter w \<and> calls_at ApiSite w' = calls_at ApiSite w)"

definition tokens_only :: "'f RateLimiter \<Rightarrow> 'f RateLimiter \<Rightarrow> bool" where
  "tokens_only l l' = (l' = l\<lparr> tokens := tokens l' \<rparr> \<and> tokens l' \<le> tokens l)"

definition rate_limit_ok :: "'d Response \<Rightarrow> bool" where
  "rate_limit_ok r =
     (case parseRateLimitHeaders r of None \<Rightarrow> True | Some rl \<Rightarrow> valid_time (rl_reset rl))"

definition noted :: "'d Response \<Rightarrow> ('d, 'f) world \<Rightarrow> ('d, 'f) world" where
  "noted r w = (case note_rate_limit r w of Inl error \<Rightarrow> w | Inr w' \<Rightarrow> w')"

definition classify :: "js_error + 'd Response \<Rightarrow> js_error + 'd" where
  "classify a =
     (case a of
        Inl error \<Rightarrow> Inl (catch_error error)
      | Inr response \<Rightarrow>
          if \<not> ok response then Inl (catch_error (handleErrorResponse response))
          else (case json response of
                  Inr data \<Rightarrow> Inr (payload data)
                | Inl error \<Rightarrow> Inl (catch_error error)))"

subsection \<open>Example worlds\<close>

definition plain_response :: "nat \<Rightarrow> string \<Rightarrow> js_error + 'd body \<Rightarrow> 'd Response" where
  "plain_response st txt b =
     \<lparr> status = st, statusText = txt, json = b, hdr_csrf = None, hdr_limit = None,
       hdr_remaining = None, hdr_reset = None \<rparr>"

definition data_body :: "'d \<Rightarrow> 'd body" where
  "data_body x = \<lparr> error_field = None, message_field = None, payload = x \<rparr>"

definition error_body :: "string \<Rightarrow> string body" where
  "error_body e = \<lparr> error_field = Some e, message_field = None, payload = [] \<rparr>"

text \<open>The error of \<open>response.json()\<close> for an empty body.\<close>

definition no_body :: js_error where
  "no_body = \<lparr> cls = SyntaxError, message = ''Unexpected end of JSON input'', code = None,
               statusCode = None \<rparr>"

definition example_world ::
  "(nat \<Rightarrow> string fetch_result) \<Rightarrow> (nat \<Rightarrow> string fetch_result) \<Rightarrow> (string, unit) world" where
  "example_world api csrf =
     \<lparr> csrfToken = None, storage = Map.empty, rateLimitInfo = None, cookies = Some [''jwt''],
       apiServer = api, csrfServer = csrf, fetchLog = [], limiter = globalRateLimiter 0,
       console = [] \<rparr>"

definition unauthorized_then_ok :: "nat \<Rightarrow> string fetch_result" where
  "unauthorized_then_ok n =
     (if n = 0 then Resp (plain_response 401 ''Unauthorized'' (Inr (error_body ''expired'')))
      else Resp (plain_response 200 ''OK'' (Inr (data_body ''projects''))))"

definition always_unauthorized :: "nat \<Rightarrow> string fetch_result" where
  "always_unauthorized n = Resp (plain_response 401 ''Unauthorized'' (Inr (error_body ''expired'')))"

definition always_ok :: "nat \<Rightarrow> string fetch_result" where
  "always_ok n = Resp (plain_response 200 ''OK'' (Inr (data_body ''projects'')))"

definition server_down :: "nat \<Rightarrow> string fetch_result" where
  "server_down n = Resp (plain_response 500 ''Internal Server Error'' (Inl no_body))"

definition slow_down_response :: "string Response" where
  "slow_down_response = plain_response 429 ''Too Many Requests'' (Inr (error_body ''slow down''))"

definition always_slow_down :: "nat \<Rightarrow> string fetch_result" where
  "always_slow_down n = Resp slow_down_response"

text \<open>
  A 401 response with the three rate-limit headers, \<open>X-RateLimit-Reset\<close> holding a text
  that \<open>parseInt\<close> reads as \<open>NaN\<close>; and a server that sends it first and a 200 response
  afterwards.
\<close>

definition bad_reset_401 :: "string Response" where
  "bad_reset_401 =
     \<lparr> status = 401, statusText = ''Unauthorized'', json = Inr (error_body ''expired''),
       hdr_csrf = None, hdr_limit = Some (Num 100), hdr_remaining = Some (Num 5),
       hdr_reset = Some NaN \<rparr>"

definition bad_reset_then_ok :: "nat \<Rightarrow> string fetch_result" where
  "bad_reset_then_ok n =
     (if n = 0 then Resp bad_reset_401
      else Resp (plain_response 200 ''OK'' (Inr (data_body ''projects''))))"

text \<open>The world of that server, with an anti-forgery token in the module variable.\<close>

definition bad_reset_world :: "(string, unit) world" where
  "bad_reset_world = (example_world bad_reset_then_ok server_down)\<lparr> csrfToken := Some ''cached'' \<rparr>"

text \<open>A CSRF endpoint that fails at the first request and hands out a token afterwards.\<close>

definition token_response :: "string Response" where
  "token_response =
     \<lparr> status = 200, statusText = ''OK'', json = Inr (data_body []), hdr_csrf = Some ''tok'',
       hdr_limit = None, hdr_remaining = None, hdr_reset = None \<rparr>"

definition down_then_token :: "nat \<Rightarrow> string fetch_result" where
  "down_then_token n =
     (if n = 0 then Resp (plain_response 500 ''Internal Server Error'' (Inl no_body))
      else Resp token_response)"

definition post_options :: ApiRequestOptions where
  "post_options = \<lparr> skipAuth = None, retryOn401 = None, http_method = Some ''POST'',
                    headers = Map.empty, body = Some ''{}'' \<rparr>"

definition example_client :: "(nat \<Rightarrow> string fetch_result) \<Rightarrow> (string, unit) client" where
  "example_client api = \<lparr> dedup = new_RequestDeduplicator, world = example_world api server_down \<rparr>"

text \<open>The same client after the bucket of the limiter has been emptied.\<close>

definition exhausted_client :: "(string, unit) client" where
  "exhausted_client =
     \<lparr> dedup = new_RequestDeduplicator,
       world = (example_world always_ok server_down)\<lparr> limiter := (globalRateLimiter 0)\<lparr> tokens := 0 \<rparr> \<rparr> \<rparr>"

section \<open>Properties of the rate limiter\<close>

subsection \<open>Evaluation of the example states\<close>

lemmas limiter_eval = globalRateLimiter_def new_RateLimiter_def or_default_def
  updateFromHeaders_def valid_time_def reset_limiter_def throttle_def processQueue_def
  processQueue_iter_def refillTokens_def dispatch_def js_sort_def by_priority_def Let_def

lemma busy_example_eq:
  "busy_example = \<lparr>requestsPerMinute = 60, maxQueueSize = 100, minRequestDelay = 100,
    tokens = 59, maxTokens = 60, lastRefill = 1000,
    queue = [\<lparr>fn = ''a'', priority = 1, timestamp = 1001\<rparr>,
       \<lparr>fn = ''b'', priority = 5, timestamp = 1002\<rparr>,
       \<lparr>fn = ''c'', priority = 3, timestamp = 1003\<rparr>],
    processing = True, totalRequests = 1, delayedRequests = 0,
    lastRequestTime = 1000\<rparr>"
  by (simp add: busy_example_def limiter_eval)

lemma tie_example_eq:
  "tie_example = \<lparr>requestsPerMinute = 60, maxQueueSize = 100, minRequestDelay = 100,
    tokens = 59, maxTokens = 60, lastRefill = 1000,
    queue = [\<lparr>fn = ''A'', priority = 2, timestamp = 1001\<rparr>,
       \<lparr>fn = ''B'', priority = 2, timestamp = 1002\<rparr>],
    processing = True, totalRequests = 1, delayedRequests = 0,
    lastRequestTime = 1000\<rparr>"
  by (simp add: tie_example_def limiter_eval)

lemma refill_example_eq:
  "refill_example = \<lparr>requestsPerMinute = 60, maxQueueSize = 100, minRequestDelay = 100,
    tokens = 0, maxTokens = 60, lastRefill = 0, queue = [],
    processing = False, totalRequests = 0, delayedRequests = 0, lastRequestTime = 0\<rparr>"
  by (simp add: refill_example_def limiter_eval)

lemma full_example_eq:
  "full_example = \<lparr>requestsPerMinute = 60, maxQueueSize = 2, minRequestDelay = 0,
    tokens = 59, maxTokens = 60, lastRefill = 1000,
    queue = [\<lparr>fn = ''a'', priority = 0, timestamp = 1001\<rparr>,
        \<lparr>fn = ''b'', priority = 0, timestamp = 1002\<rparr>],
    processing = True, totalRequests = 1, delayedRequests = 0, lastRequestTime = 1000\<rparr>"
  by (simp add: full_example_def limiter_eval)

subsection \<open>Queue overflow\<close>

text \<open>
  C7: when the wait queue already holds \<open>maxQueueSize\<close> entries (or more), the next
  \<open>throttle\<close> call is rejected at once with the capacity error, an \<open>Error\<close> with
  the message \<open>queue_full_message\<close>: the call returns no suspension point, the
  operation is neither enqueued nor run, and the limiter's state, the queue and the
  token count among it, is the state before the call.
\<close>

theorem throttle_queue_full:
  assumes "real (length (queue s)) \<ge> maxQueueSize s"
  shows "throttle f prio now s = (Inl (new_Error queue_full_message), s)"
  using assms by (simp add: throttle_def)

text \<open>
  The state \<open>full_example\<close> is reached by three \<open>throttle\<close> calls on a limiter
  with \<open>maxQueueSize = 2\<close>: the first request runs at once, the next two wait.
\<close>

theorem throttle_queue_full_witness:
  "real (length (queue full_example)) = maxQueueSize full_example
   \<and> throttle ''d'' 0 1003 full_example = (Inl (new_Error queue_full_message), full_example)
   \<and> map fn (queue (snd (throttle ''d'' 0 1003 full_example))) = [''a'', ''b'']
   \<and> tokens (snd (throttle ''d'' 0 1003 full_example)) = 59"
  using throttle_queue_full [of full_example "''d''" 0 1003]
  by (simp add: full_example_eq)

subsection \<open>The refill\<close>

text \<open>
  C8 (amended): a refill computes \<open>tokensToAdd = elapsedMs * requestsPerMinute / 60000\<close>
  from the time since the last refill. Below \<open>1\<close> the limiter is unchanged. From
  \<open>1\<close> on, the token count grows by the integer part \<open>\<lfloor>tokensToAdd\<rfloor>\<close>, clamped at
  \<open>maxTokens\<close>, and \<open>lastRefill\<close> becomes the current time; no other field changes.
\<close>

theorem refillTokens_floor:
  "((now - lastRefill s) * requestsPerMinute s / 60000 < 1 \<longrightarrow> refillTokens now s = s)
   \<and> (1 \<le> (now - lastRefill s) * requestsPerMinute s / 60000 \<longrightarrow>
        tokens (refillTokens now s)
          = min (maxTokens s)
              (tokens s + of_int \<lfloor>(now - lastRefill s) * requestsPerMinute s / 60000\<rfloor>)
        \<and> lastRefill (refillTokens now s) = now
        \<and> tokens (refillTokens now s) \<le> maxTokens s
        \<and> refillTokens now s
            = s\<lparr> tokens := tokens (refillTokens now s), lastRefill := now \<rparr>)"
  by (simp add: refillTokens_def Let_def)

theorem refillTokens_floor_witness:
  "(1500 - lastRefill refill_example) * requestsPerMinute refill_example / 60000 \<ge> 1
   \<and> tokens (refillTokens 1500 refill_example) = 1
   \<and> lastRefill (refillTokens 1500 refill_example) = 1500
   \<and> (500 - lastRefill refill_example) * requestsPerMinute refill_example / 60000 < 1
   \<and> refillTokens 500 refill_example = refill_example"
  using refillTokens_floor [of 1500 refill_example] refillTokens_floor [of 500 refill_example]
  by (simp add: refill_example_eq)

text \<open>
  The claim as written adds \<open>tokensToAdd\<close> itself. After 1500 ms at 60 requests per
  minute \<open>tokensToAdd\<close> is \<open>1.5\<close> and an empty bucket holds \<open>1\<close> token, not
  \<open>1.5\<close>.
\<close>

theorem refillTokens_exact_counterexample:
  "1 \<le> (1500 - lastRefill refill_example) * requestsPerMinute refill_example / 60000
   \<and> tokens (refillTokens 1500 refill_example)
       \<noteq> min (maxTokens refill_example)
           (tokens refill_example
            + (1500 - lastRefill refill_example) * requestsPerMinute refill_example / 60000)"
  by (simp add: refill_example_eq refillTokens_def Let_def)

subsection \<open>The bounds of the token count\<close>

lemma maxTokens_refill [simp]: "maxTokens (refillTokens now s) = maxTokens s"
  by (simp add: refillTokens_def Let_def)

lemma maxTokens_dispatch [simp]: "maxTokens (snd (dispatch now s)) = maxTokens s"
  by (simp add: dispatch_def split: list.splits)

lemma maxTokens_iter [simp]: "maxTokens (snd (processQueue_iter now s)) = maxTokens s"
  by (simp add: processQueue_iter_def Let_def)

lemma maxTokens_processQueue [simp]: "maxTokens (snd (processQueue now s)) = maxTokens s"
proof (cases "processing s")
  case True then show ?thesis by (simp add: processQueue_def)
next
  case False
  obtain w s' where e: "processQueue_iter now (s\<lparr>processing := True\<rparr>) = (w, s')"
    by (cases "processQueue_iter now (s\<lparr>processing := True\<rparr>)")
  have "maxTokens s' = maxTokens (s\<lparr>processing := True\<rparr>)"
    using maxTokens_iter [of now "s\<lparr>processing := True\<rparr>"] e by simp
  with False e show ?thesis by (simp add: processQueue_def)
qed

lemma refill_le_max: "tokens s \<le> maxTokens s \<Longrightarrow> tokens (refillTokens now s) \<le> maxTokens s"
  by (simp add: refillTokens_def Let_def)

lemma refill_nonneg:
  "0 \<le> tokens s \<Longrightarrow> 0 \<le> maxTokens s \<Longrightarrow> 0 \<le> tokens (refillTokens now s)"
  by (auto simp: refillTokens_def Let_def min_def)

lemma dispatch_le_max: "tokens s \<le> maxTokens s \<Longrightarrow> tokens (snd (dispatch now s)) \<le> maxTokens s"
  by (simp add: dispatch_def split: list.splits)

lemma dispatch_nonneg: "1 \<le> tokens s \<Longrightarrow> 0 \<le> tokens (snd (dispatch now s))"
  by (simp add: dispatch_def split: list.splits)

lemma iter_le_max:
  "tokens s \<le> maxTokens s \<Longrightarrow> tokens (snd (processQueue_iter now s)) \<le> maxTokens s"
  using refill_le_max [of s now] dispatch_le_max [of "refillTokens now s" now]
  by (simp add: processQueue_iter_def Let_def)

lemma iter_nonneg:
  "0 \<le> tokens s \<Longrightarrow> 0 \<le> maxTokens s \<Longrightarrow> 0 \<le> tokens (snd (processQueue_iter now s))"
  using refill_nonneg [of s now] dispatch_nonneg [of "refillTokens now s" now]
  by (simp add: processQueue_iter_def Let_def)

lemma processQueue_snd:
  "snd (processQueue now s) =
     (if processing s then s else snd (processQueue_iter now (s\<lparr>processing := True\<rparr>)))"
  by (simp add: processQueue_def Let_def split: prod.splits)

lemma throttle_snd:
  "snd (throttle f prio now s) =
     (if real (length (queue s)) \<ge> maxQueueSize s then s
      else snd (processQueue now (s\<lparr>queue := queue s @ [\<lparr>fn = f, priority = prio, timestamp = now\<rparr>]\<rparr>)))"
  by (simp add: throttle_def Let_def split: prod.splits)

lemma throttle_le_max:
  "tokens s \<le> maxTokens s \<Longrightarrow> tokens (snd (throttle f prio now s)) \<le> maxTokens s"
  using iter_le_max [of "s\<lparr>queue := queue s @ [\<lparr>fn = f, priority = prio, timestamp = now\<rparr>], processing := True\<rparr>" now]
  by (simp add: throttle_snd processQueue_snd)

lemma throttle_nonneg:
  "0 \<le> tokens s \<Longrightarrow> 0 \<le> maxTokens s \<Longrightarrow> 0 \<le> tokens (snd (throttle f prio now s))"
  using iter_nonneg [of "s\<lparr>queue := queue s @ [\<lparr>fn = f, priority = prio, timestamp = now\<rparr>], processing := True\<rparr>" now]
  by (simp add: throttle_snd processQueue_snd)

lemma maxTokens_throttle [simp]: "maxTokens (snd (throttle f prio now s)) = maxTokens s"
  by (simp add: throttle_snd)

lemma updateFromHeaders_cases:
  "updateFromHeaders limit remaining reset s = Inr s'
   \<Longrightarrow> s' = s \<or> (\<exists>r. remaining = Num r \<and> s' = s\<lparr> tokens := min (tokens s) r \<rparr>)"
  by (auto simp: updateFromHeaders_def split: if_splits js_number.splits)

lemma maxTokens_apply_op [simp]: "maxTokens (apply_op x s) = maxTokens s"
  by (cases x) (auto simp: reset_limiter_def split: sum.splits dest: updateFromHeaders_cases)

lemma apply_op_le_max:
  "tokens s \<le> maxTokens s \<Longrightarrow> tokens (apply_op x s) \<le> maxTokens s"
  by (cases x)
     (auto simp: throttle_le_max iter_le_max dispatch_le_max refill_le_max reset_limiter_def
        split: sum.splits dest: updateFromHeaders_cases)

lemma apply_op_nonneg:
  "guarded_op s x \<Longrightarrow> 0 \<le> tokens s \<Longrightarrow> 0 \<le> maxTokens s \<Longrightarrow> 0 \<le> tokens (apply_op x s)"
  by (cases x)
     (auto simp: throttle_nonneg iter_nonneg dispatch_nonneg refill_nonneg reset_limiter_def
        split: sum.splits dest: updateFromHeaders_cases)

lemma maxTokens_run_ops [simp]: "maxTokens (run_ops xs s) = maxTokens s"
  by (induction xs arbitrary: s) simp_all

lemma run_ops_le_max: "tokens s \<le> maxTokens s \<Longrightarrow> tokens (run_ops xs s) \<le> maxTokens s"
proof (induction xs arbitrary: s)
  case Nil
  then show ?case by simp
next
  case (Cons x xs)
  have "tokens (apply_op x s) \<le> maxTokens (apply_op x s)"
    using Cons.prems by (simp add: apply_op_le_max)
  from Cons.IH [OF this] show ?case by simp
qed

lemma run_ops_nonneg:
  "guarded s xs \<Longrightarrow> 0 \<le> tokens s \<Longrightarrow> 0 \<le> maxTokens s \<Longrightarrow> 0 \<le> tokens (run_ops xs s)"
proof (induction xs arbitrary: s)
  case Nil
  then show ?case by simp
next
  case (Cons x xs)
  have "0 \<le> tokens (apply_op x s)"
    using Cons.prems by (simp add: apply_op_nonneg)
  moreover have "guarded (apply_op x s) xs" "0 \<le> maxTokens (apply_op x s)"
    using Cons.prems by simp_all
  ultimately show ?case using Cons.IH [of "apply_op x s"] by simp
qed

text \<open>
  C5 (amended): after every sequence of limiter operations (\<open>throttle\<close>, loop
  iteration, resumption after the delay sleep, refill, \<open>updateFromHeaders\<close>,
  \<open>reset\<close>) the token count is at most \<open>maxTokens\<close>. It is not negative as long as
  every header update reports a non-negative remaining count and every resumption after
  the delay sleep still finds a whole token.
\<close>

theorem tokens_bounded:
  assumes "tokens s \<le> maxTokens s"
  shows "tokens (run_ops xs s) \<le> maxTokens (run_ops xs s)
       \<and> (0 \<le> tokens s \<and> guarded s xs \<longrightarrow> 0 \<le> tokens (run_ops xs s))"
  using assms run_ops_le_max [of s xs] run_ops_nonneg [of s xs] by auto

theorem tokens_bounded_witness:
  "tokens (globalRateLimiter 0 :: string RateLimiter) \<le> maxTokens (globalRateLimiter 0 :: string RateLimiter)
   \<and> 0 \<le> tokens (globalRateLimiter 0 :: string RateLimiter)
   \<and> guarded (globalRateLimiter 0)
        [OpThrottle ''x'' 0 1000, OpThrottle ''y'' 0 1005, OpIterate 1010,
         OpUpdate (Num 100) (Num 5) (Num 1700000000), OpDispatch 1100, OpReset 1200, OpRefill 5000]
   \<and> 0 \<le> tokens (run_ops
        [OpThrottle ''x'' 0 1000, OpThrottle ''y'' 0 1005, OpIterate 1010,
         OpUpdate (Num 100) (Num 5) (Num 1700000000), OpDispatch 1100, OpReset 1200, OpRefill 5000]
        (globalRateLimiter 0))
   \<and> tokens (run_ops
        [OpThrottle ''x'' 0 1000, OpThrottle ''y'' 0 1005, OpIterate 1010,
         OpUpdate (Num 100) (Num 5) (Num 1700000000), OpDispatch 1100, OpReset 1200, OpRefill 5000]
        (globalRateLimiter 0)) \<le> 60"
  using tokens_bounded [of "globalRateLimiter 0 :: string RateLimiter"
        "[OpThrottle ''x'' 0 1000, OpThrottle ''y'' 0 1005, OpIterate 1010,
         OpUpdate (Num 100) (Num 5) (Num 1700000000), OpDispatch 1100, OpReset 1200, OpRefill 5000]"]
  by (simp add: limiter_eval)

text \<open>
  The claim as written fails below zero: a header update with a negative remaining
  count stores that count, and a header update with remaining \<open>0\<close> that arrives
  during the delay sleep of the drain loop is followed by the consumption of a token.
\<close>

theorem tokens_negative_counterexample:
  "tokens (run_ops [OpUpdate (Num 100) (Num (-1)) (Num 1700000000)]
      (globalRateLimiter 0 :: unit RateLimiter)) < 0
   \<and> tokens (run_ops [OpThrottle () 0 1000, OpThrottle () 0 1005, OpIterate 1010,
         OpUpdate (Num 100) (Num 0) (Num 1700000000), OpDispatch 1100] (globalRateLimiter 0)) < 0"
  by (simp add: globalRateLimiter_def new_RateLimiter_def or_default_def updateFromHeaders_def
      valid_time_def throttle_def processQueue_def processQueue_iter_def refillTokens_def dispatch_def
      js_sort_def by_priority_def Let_def)

subsection \<open>The order of execution\<close>

lemma js_insert_insort:
  "js_insert by_priority x ys = insort_key (\<lambda>r. - priority r) x ys"
  by (induction ys) (auto simp: by_priority_def)

lemma js_sort_sort_key:
  "js_sort by_priority xs = sort_key (\<lambda>r. - priority r) xs"
  by (induction xs) (simp_all add: js_sort_def js_insert_insort)

lemma sorted_js_sort: "sorted (map (\<lambda>r. - priority r) (js_sort by_priority xs))"
  by (simp add: js_sort_sort_key)

lemma js_sort_sorted_id:
  "sorted (map (\<lambda>r. - priority r) xs) \<Longrightarrow> js_sort by_priority xs = xs"
  by (simp add: js_sort_sort_key sort_key_id_if_sorted)

lemma js_sort_tail:
  assumes "js_sort by_priority q = r # rest"
  shows "js_sort by_priority rest = rest"
proof -
  have "sorted (map (\<lambda>r. - priority r) (r # rest))"
    using sorted_js_sort [of q] assms by simp
  then have "sorted (map (\<lambda>r. - priority r) rest)" by simp
  then show ?thesis by (rule js_sort_sorted_id)
qed

lemma queue_refill [simp]: "queue (refillTokens now s) = queue s"
  by (simp add: refillTokens_def Let_def)

lemma dispatch_Run:
  "dispatch now s = (Run r, s') \<Longrightarrow> js_sort by_priority (queue s) = r # queue s'"
  by (auto simp: dispatch_def split: list.splits)

lemma dispatch_cases:
  "(\<exists>s'. dispatch now s = (Done, s')) \<or> (\<exists>r s'. dispatch now s = (Run r, s'))"
  by (simp add: dispatch_def split: list.splits)

lemma iter_Run:
  "processQueue_iter now s = (Run r, s') \<Longrightarrow> js_sort by_priority (queue s) = r # queue s'"
  using dispatch_Run [of now "refillTokens now s" r s']
  by (auto simp: processQueue_iter_def Let_def split: if_splits)

lemma iter_WaitToken:
  "processQueue_iter now s = (WaitToken ms, s') \<Longrightarrow> queue s' = queue s"
  using dispatch_cases [of now "refillTokens now s"]
  by (auto simp: processQueue_iter_def Let_def split: if_splits)

lemma iter_WaitDelay:
  "processQueue_iter now s = (WaitDelay ms, s') \<Longrightarrow> queue s' = queue s"
  using dispatch_cases [of now "refillTokens now s"]
  by (auto simp: processQueue_iter_def Let_def split: if_splits)

lemma loop_prefix:
  "prefix (fst (processQueue_loop ts s)) (js_sort by_priority (queue s))"
proof (induction "length ts" arbitrary: ts s rule: less_induct)
  case less
  show ?case
  proof (cases ts)
    case Nil
    then show ?thesis by simp
  next
    case (Cons t ts1)
    obtain w s' where it: "processQueue_iter t s = (w, s')"
      by (cases "processQueue_iter t s")
    show ?thesis
    proof (cases w)
      case Done
      with it Cons show ?thesis by simp
    next
      case (WaitToken ms)
      have "prefix (fst (processQueue_loop ts1 s')) (js_sort by_priority (queue s'))"
        using less [of ts1 s'] Cons by simp
      with it Cons WaitToken iter_WaitToken [of t s ms s'] show ?thesis by simp
    next
      case (Run r)
      have q: "js_sort by_priority (queue s) = r # queue s'"
        using it Run iter_Run by blast
      have "prefix (fst (processQueue_loop ts1 s')) (js_sort by_priority (queue s'))"
        using less [of ts1 s'] Cons by simp
      then have "prefix (fst (processQueue_loop ts1 s')) (queue s')"
        using js_sort_tail [OF q] by simp
      with it Cons Run q show ?thesis by (simp add: split_beta)
    next
      case (WaitDelay ms)
      have qs: "queue s' = queue s" using it WaitDelay iter_WaitDelay by blast
      show ?thesis
      proof (cases ts1)
        case Nil
        with it Cons WaitDelay show ?thesis by simp
      next
        case c2: (Cons t' ts')
        obtain w2 s2 where d: "dispatch t' s' = (w2, s2)" by (cases "dispatch t' s'")
        show ?thesis
        proof (cases w2)
          case (Run r)
          have q: "js_sort by_priority (queue s') = r # queue s2"
            using d Run dispatch_Run by blast
          have "prefix (fst (processQueue_loop ts' s2)) (js_sort by_priority (queue s2))"
            using less [of ts' s2] Cons c2 by simp
          then have "prefix (fst (processQueue_loop ts' s2)) (queue s2)"
            using js_sort_tail [OF q] by simp
          with it Cons WaitDelay c2 d Run q qs show ?thesis by (simp add: split_beta)
        qed (use it Cons WaitDelay c2 d in simp_all)
      qed
    qed
  qed
qed

lemma refill_tokens_mono: "tokens s \<le> maxTokens s \<Longrightarrow> tokens s \<le> tokens (refillTokens now s)"
  by (auto simp: refillTokens_def Let_def min_def)

lemma dispatch_nonempty:
  assumes "queue s \<noteq> []"
  shows "\<exists>r s'. dispatch now s = (Run r, s') \<and> js_sort by_priority (queue s) = r # queue s'
           \<and> tokens s' = tokens s - 1 \<and> maxTokens s' = maxTokens s"
proof -
  have "length (js_sort by_priority (queue s)) = length (queue s)"
    by (simp add: js_sort_sort_key)
  with assms obtain r rest where "js_sort by_priority (queue s) = r # rest"
    by (cases "js_sort by_priority (queue s)") auto
  then show ?thesis by (simp add: dispatch_def)
qed

lemma length_js_sort [simp]: "length (js_sort by_priority q) = length q"
  by (simp add: js_sort_sort_key)

lemma loop_complete:
  "tokens s \<le> maxTokens s \<Longrightarrow> real (length (queue s)) \<le> tokens s
   \<Longrightarrow> 2 * length (queue s) \<le> length ts
   \<Longrightarrow> fst (processQueue_loop ts s) = js_sort by_priority (queue s)"
proof (induction "length ts" arbitrary: ts s rule: less_induct)
  case less
  show ?case
  proof (cases "queue s")
    case Nil
    then show ?thesis
      by (cases ts) (simp_all add: js_sort_def processQueue_iter_def)
  next
    case (Cons q0 qs)
    then obtain t ts1 where ts: "ts = t # ts1" using less.prems(3) by (cases ts) auto
    let ?s1 = "refillTokens t s"
    have ne: "queue ?s1 \<noteq> []" using Cons by simp
    have tk: "tokens s \<le> tokens ?s1" using less.prems(1) by (rule refill_tokens_mono)
    have mx: "tokens ?s1 \<le> maxTokens ?s1" using less.prems(1) by (simp add: refill_le_max)
    have ge1: "1 \<le> tokens ?s1" using tk less.prems(2) Cons by simp
    have step: "\<And>t' ts' r s2. dispatch t' ?s1 = (Run r, s2) \<Longrightarrow> length (ts'::real list) < length ts
        \<Longrightarrow> 2 * length (queue s) \<le> length ts' + 2
        \<Longrightarrow> js_sort by_priority (queue s) = r # queue s2
        \<Longrightarrow> tokens s2 = tokens ?s1 - 1 \<Longrightarrow> maxTokens s2 = maxTokens ?s1
        \<Longrightarrow> r # fst (processQueue_loop ts' s2) = js_sort by_priority (queue s)"
    proof -
      fix t' r s2 and ts' :: "real list"
      assume d: "dispatch t' ?s1 = (Run r, s2)" and len: "length ts' < length ts"
        and l2: "2 * length (queue s) \<le> length ts' + 2"
        and q: "js_sort by_priority (queue s) = r # queue s2"
        and t2: "tokens s2 = tokens ?s1 - 1" and m2: "maxTokens s2 = maxTokens ?s1"
      have lq: "length (queue s) = Suc (length (queue s2))"
        using q length_js_sort [of "queue s"] by simp
      have a: "tokens s2 \<le> maxTokens s2" using t2 m2 mx by simp
      have b: "real (length (queue s2)) \<le> tokens s2"
        using t2 tk less.prems(2) lq by simp
      have c: "2 * length (queue s2) \<le> length ts'" using l2 lq by simp
      have "fst (processQueue_loop ts' s2) = js_sort by_priority (queue s2)"
        using less.hyps [OF len a b c] .
      also have "\<dots> = queue s2" using js_sort_tail [OF q] .
      finally show "r # fst (processQueue_loop ts' s2) = js_sort by_priority (queue s)"
        using q by simp
    qed
    show ?thesis
    proof (cases "minRequestDelay ?s1 > 0 \<and> t - lastRequestTime ?s1 < minRequestDelay ?s1")
      case False
      obtain r s2 where d: "dispatch t ?s1 = (Run r, s2)"
        and q: "js_sort by_priority (queue ?s1) = r # queue s2"
        and t2: "tokens s2 = tokens ?s1 - 1" and m2: "maxTokens s2 = maxTokens ?s1"
        using dispatch_nonempty [OF ne, of t] by blast
      have it: "processQueue_iter t s = (Run r, s2)"
        using Cons ge1 False d by (auto simp: processQueue_iter_def Let_def)
      have "r # fst (processQueue_loop ts1 s2) = js_sort by_priority (queue s)"
        using step [OF d _ _ _ t2 m2, of ts1] q ts less.prems(3) by simp
      with it ts show ?thesis by (simp add: split_beta)
    next
      case True
      have it: "processQueue_iter t s
                  = (WaitDelay (minRequestDelay ?s1 - (t - lastRequestTime ?s1)), ?s1)"
        using Cons ge1 True by (auto simp: processQueue_iter_def Let_def)
      obtain t' ts' where ts1: "ts1 = t' # ts'"
        using less.prems(3) ts Cons by (cases ts1) auto
      obtain r s2 where d: "dispatch t' ?s1 = (Run r, s2)"
        and q: "js_sort by_priority (queue ?s1) = r # queue s2"
        and t2: "tokens s2 = tokens ?s1 - 1" and m2: "maxTokens s2 = maxTokens ?s1"
        using dispatch_nonempty [OF ne, of t'] by blast
      have "r # fst (processQueue_loop ts' s2) = js_sort by_priority (queue s)"
        using step [OF d _ _ _ t2 m2, of ts'] q ts ts1 less.prems(3) by simp
      with it ts ts1 d show ?thesis by (simp add: split_beta)
    qed
  qed
qed

lemma js_sort_desc: "sorted_wrt (\<lambda>a b. priority b \<le> priority a) (js_sort by_priority q)"
proof -
  have "sorted (map (\<lambda>r. - priority r) (js_sort by_priority q))" by (rule sorted_js_sort)
  then show ?thesis by (simp add: sorted_map)
qed

lemma js_sort_stable:
  "filter (\<lambda>r. priority r = p) (js_sort by_priority q) = filter (\<lambda>r. priority r = p) q"
  using sort_key_stable [of "\<lambda>r. - priority r" "- p" q] by (simp add: js_sort_sort_key)

lemma set_js_sort [simp]: "set (js_sort by_priority q) = set q"
  by (simp add: js_sort_sort_key)

lemma dispatch_picks:
  assumes "dispatch now s = (Run r, s')"
  shows "(\<forall>x \<in> set (queue s). priority x \<le> priority r)
       \<and> filter (\<lambda>x. priority x = priority r) (queue s)
           = r # filter (\<lambda>x. priority x = priority r) (queue s')"
proof -
  have q: "js_sort by_priority (queue s) = r # queue s'"
    using assms by (rule dispatch_Run)
  have "sorted_wrt (\<lambda>a b. priority b \<le> priority a) (r # queue s')"
    using js_sort_desc [of "queue s"] q by simp
  then have "\<forall>x \<in> set (r # queue s'). priority x \<le> priority r" by auto
  moreover have "set (queue s) = set (r # queue s')"
    using set_js_sort [of "queue s"] q by simp
  ultimately have 1: "\<forall>x \<in> set (queue s). priority x \<le> priority r"
    by blast
  have "filter (\<lambda>x. priority x = priority r) (queue s)
      = filter (\<lambda>x. priority x = priority r) (r # queue s')"
    using js_sort_stable [of "priority r" "queue s"] q by simp
  then have 2: "filter (\<lambda>x. priority x = priority r) (queue s)
      = r # filter (\<lambda>x. priority x = priority r) (queue s')"
    by simp
  from 1 2 show ?thesis by simp
qed

text \<open>
  C6: the requests of the queue are run in the order of the stable sort of the queue by
  descending priority: whatever the clock readings, the requests run are a prefix of
  that sorted queue; its priorities descend and requests of equal priority keep their
  insertion order; and when the bucket holds a token for every request and the schedule
  is long enough, all of them are run. Every single dispatch, whatever was enqueued
  before it, runs a request of the highest priority in the queue, the first enqueued of
  that priority. Priorities \<open>[1, 5, 3]\<close> run as \<open>5, 3, 1\<close>, and of two requests of
  equal priority the first enqueued runs first.
\<close>

theorem drain_order:
  "prefix (fst (processQueue_loop ts s)) (js_sort by_priority (queue s))
   \<and> sorted_wrt (\<lambda>a b. priority b \<le> priority a) (js_sort by_priority (queue s))
   \<and> (\<forall>p. filter (\<lambda>r. priority r = p) (js_sort by_priority (queue s))
            = filter (\<lambda>r. priority r = p) (queue s))
   \<and> (tokens s \<le> maxTokens s \<and> real (length (queue s)) \<le> tokens s
        \<and> 2 * length (queue s) \<le> length ts
      \<longrightarrow> fst (processQueue_loop ts s) = js_sort by_priority (queue s))
   \<and> (\<forall>now r s'. dispatch now s = (Run r, s')
      \<longrightarrow> (\<forall>x \<in> set (queue s). priority x \<le> priority r)
        \<and> filter (\<lambda>x. priority x = priority r) (queue s)
            = r # filter (\<lambda>x. priority x = priority r) (queue s'))"
proof -
  have "\<forall>now r s'. dispatch now s = (Run r, s')
      \<longrightarrow> (\<forall>x \<in> set (queue s). priority x \<le> priority r)
        \<and> filter (\<lambda>x. priority x = priority r) (queue s)
            = r # filter (\<lambda>x. priority x = priority r) (queue s')"
    using dispatch_picks by blast
  then show ?thesis
    using loop_prefix [of ts s] js_sort_desc [of "queue s"] js_sort_stable [of _ "queue s"]
      loop_complete [of s ts]
    by blast
qed

theorem drain_order_witness:
  "tokens busy_example \<le> maxTokens busy_example
   \<and> real (length (queue busy_example)) \<le> tokens busy_example
   \<and> 2 * length (queue busy_example) \<le> length [1100, 1200, 1300, 1400, 1500, 1600 :: real]
   \<and> map fn (fst (processQueue_loop [1100, 1200, 1300, 1400, 1500, 1600] busy_example))
     = [''b'', ''c'', ''a'']
   \<and> map priority (fst (processQueue_loop [1100, 1200, 1300, 1400, 1500, 1600] busy_example))
     = [5, 3, 1]
   \<and> map fn (fst (processQueue_loop [1100, 1110, 1200, 1210] tie_example)) = [''A'', ''B'']"
  using drain_order [of "[1100, 1200, 1300, 1400, 1500, 1600]" busy_example]
    drain_order [of "[1100, 1110, 1200, 1210]" tie_example]
  by (simp add: busy_example_eq tie_example_eq js_sort_def by_priority_def)

section \<open>Properties of the request deduplicator\<close>

lemma dedupe_example_1:
  "dedupe ''k'' ''f1'' dedup_example =
     (0, \<lparr> pending = [''k'' \<mapsto> 0], requestCounts = [''k'' \<mapsto> 1],
           promises = [\<lparr> supplier = ''f1'', cleanup_key = ''k'', outcome = None \<rparr>] \<rparr>)"
  by (simp add: dedupe_def dedup_example_def new_RequestDeduplicator_def Let_def)

lemma settle_example_1:
  "settle 0 ''failed'' (snd (dedupe ''k'' ''f1'' dedup_example)) =
     \<lparr> pending = Map.empty, requestCounts = Map.empty,
       promises = [\<lparr> supplier = ''f1'', cleanup_key = ''k'', outcome = Some ''failed'' \<rparr>] \<rparr>"
  by (simp add: dedupe_example_1 settle_def Let_def)

lemma returned_example_1:
  "returned ''k'' [Dedupe ''k'' ''f2'', Dedupe ''k'' ''f3'', Settle 1 ''ok'', Dedupe ''k'' ''f4'']
     \<lparr> pending = Map.empty, requestCounts = Map.empty,
       promises = [\<lparr> supplier = ''f1'', cleanup_key = ''k'', outcome = Some ''failed'' \<rparr>] \<rparr>
   = [1, 1, 2]"
  by (simp add: dedupe_def settle_def Let_def)


lemma invoked_update:
  "p < length xs \<Longrightarrow> cleanup_key y = cleanup_key (xs ! p) \<Longrightarrow> supplier y = supplier (xs ! p)
   \<Longrightarrow> map supplier (filter (\<lambda>pr. cleanup_key pr = key) (xs[p := y]))
       = map supplier (filter (\<lambda>pr. cleanup_key pr = key) xs)"
proof (induction xs arbitrary: p)
  case Nil
  then show ?case by simp
next
  case (Cons x xs)
  then show ?case by (cases p) auto
qed

lemma invoked_settle [simp]: "invoked key (settle p out d) = invoked key d"
  by (simp add: settle_def invoked_def Let_def invoked_update)

lemma invoked_clear [simp]: "invoked key (clear d) = invoked key d"
  by (simp add: clear_def invoked_def)

lemma invoked_dedupe:
  "invoked key (snd (dedupe key' f d))
     = (if key' = key \<and> pending d key' = None then invoked key d @ [f] else invoked key d)"
  by (auto simp: dedupe_def invoked_def Let_def split: option.splits)

lemma length_promises_settle [simp]: "length (promises (settle p out d)) = length (promises d)"
  by (simp add: settle_def Let_def)

lemma length_promises_dedupe:
  "length (promises d) \<le> length (promises (snd (dedupe key f d)))"
  by (simp add: dedupe_def Let_def split: option.splits)

lemma length_promises_step: "length (promises d) \<le> length (promises (dedup_step ev d))"
  by (cases ev) (simp_all add: length_promises_dedupe clear_def)

lemma registered_dedupe:
  "registered key p d \<Longrightarrow> registered key p (snd (dedupe key' f d))"
  by (auto simp: registered_def dedupe_def Let_def nth_append split: option.splits)

lemma registered_settle:
  assumes "registered key p d"
    and "q < length (promises d) \<longrightarrow> cleanup_key (promises d ! q) \<noteq> key"
  shows "registered key p (settle q out d)"
proof (cases "q < length (promises d) \<and> outcome (promises d ! q) = None")
  case False
  then have "settle q out d = d" by (auto simp: settle_def)
  with assms(1) show ?thesis by simp
next
  case True
  with assms have "q \<noteq> p" by (auto simp: registered_def)
  with True assms show ?thesis by (auto simp: registered_def settle_def Let_def)
qed

lemma dedupe_registered: "registered key p d \<Longrightarrow> fst (dedupe key f d) = p"
  by (simp add: registered_def dedupe_def)

lemma undisturbed_run:
  "registered key p d \<Longrightarrow> undisturbed key d evs
   \<Longrightarrow> registered key p (dedup_run evs d)
     \<and> (\<forall>q \<in> set (returned key evs d). q = p)
     \<and> invoked key (dedup_run evs d) = invoked key d"
proof (induction evs arbitrary: d)
  case Nil
  then show ?case by simp
next
  case (Cons ev evs)
  show ?case
  proof (cases ev)
    case (Dedupe key' f)
    have r: "registered key p (snd (dedupe key' f d))"
      using Cons.prems(1) by (rule registered_dedupe)
    have u: "undisturbed key (snd (dedupe key' f d)) evs"
      using Cons.prems(2) Dedupe by simp
    have i: "invoked key (snd (dedupe key' f d)) = invoked key d"
      using Cons.prems(1) by (auto simp: invoked_dedupe registered_def)
    from Cons.IH [OF r u] i Dedupe dedupe_registered [OF Cons.prems(1)]
    show ?thesis by simp
  next
    case (Settle q out)
    have g: "q < length (promises d) \<longrightarrow> cleanup_key (promises d ! q) \<noteq> key"
      and u: "undisturbed key (settle q out d) evs"
      using Cons.prems(2) Settle by simp_all
    have r: "registered key p (settle q out d)"
      using Cons.prems(1) g by (rule registered_settle)
    from Cons.IH [OF r u] Settle show ?thesis by simp
  next
    case Clear
    with Cons.prems(2) show ?thesis by simp
  qed
qed

lemma dedupe_new_registered:
  "pending d key = None \<Longrightarrow> registered key (length (promises d)) (snd (dedupe key f d))"
  by (simp add: registered_def dedupe_def Let_def)

lemma observed_settle_registered:
  "registered key p d \<Longrightarrow> observed p (settle p out d) = Some out"
  by (simp add: registered_def observed_def settle_def Let_def)


text \<open>
  C3: when \<open>dedupe\<close> is called for a key that is not pending and further calls for
  the same key follow while the first call's promise is unsettled (other keys may be
  requested and other promises may settle in between), the first call's supplier is the
  only supplier called for the key, every call returns the promise of the first call,
  and so all callers observe one settlement: nothing while it is unsettled, and its
  one outcome, value or rejection, once it settles.
\<close>

theorem dedupe_collapse:
  assumes "pending d key = None"
    and "undisturbed key (snd (dedupe key f d)) evs"
  shows "fst (dedupe key f d) = length (promises d)
     \<and> (\<forall>q \<in> set (returned key evs (snd (dedupe key f d))). q = length (promises d))
     \<and> invoked key (dedup_run evs (snd (dedupe key f d))) = invoked key d @ [f]
     \<and> observed (length (promises d)) (dedup_run evs (snd (dedupe key f d))) = None
     \<and> observed (length (promises d))
          (settle (length (promises d)) out (dedup_run evs (snd (dedupe key f d)))) = Some out"
proof -
  let ?d1 = "snd (dedupe key f d)" and ?p = "length (promises d)"
  have r: "registered key ?p ?d1" using assms(1) by (rule dedupe_new_registered)
  have run: "registered key ?p (dedup_run evs ?d1)
     \<and> (\<forall>q \<in> set (returned key evs ?d1). q = ?p)
     \<and> invoked key (dedup_run evs ?d1) = invoked key ?d1"
    using r assms(2) by (rule undisturbed_run)
  have "fst (dedupe key f d) = ?p" using assms(1) by (simp add: dedupe_def Let_def)
  moreover have "invoked key ?d1 = invoked key d @ [f]"
    using assms(1) by (simp add: invoked_dedupe)
  moreover have "observed ?p (dedup_run evs ?d1) = None"
    using run by (simp add: registered_def observed_def)
  moreover have "observed ?p (settle ?p out (dedup_run evs ?d1)) = Some out"
    using run observed_settle_registered [of key ?p "dedup_run evs ?d1" out] by simp
  ultimately show ?thesis using run by simp
qed

theorem dedupe_collapse_witness:
  "pending dedup_example ''k'' = None
   \<and> undisturbed ''k'' (snd (dedupe ''k'' ''f1'' dedup_example))
        [Dedupe ''k'' ''f2'', Dedupe ''other'' ''g'', Settle 1 ''done'', Dedupe ''k'' ''f3'']
   \<and> returned ''k''
        [Dedupe ''k'' ''f2'', Dedupe ''other'' ''g'', Settle 1 ''done'', Dedupe ''k'' ''f3'']
        (snd (dedupe ''k'' ''f1'' dedup_example)) = [0, 0]
   \<and> invoked ''k'' (dedup_run
        [Dedupe ''k'' ''f2'', Dedupe ''other'' ''g'', Settle 1 ''done'', Dedupe ''k'' ''f3'']
        (snd (dedupe ''k'' ''f1'' dedup_example))) = [''f1'']
   \<and> observed 0 (settle 0 ''value'' (dedup_run
        [Dedupe ''k'' ''f2'', Dedupe ''other'' ''g'', Settle 1 ''done'', Dedupe ''k'' ''f3'']
        (snd (dedupe ''k'' ''f1'' dedup_example)))) = Some ''value''"
  using dedupe_collapse [of dedup_example "''k''" "''f1''"
      "[Dedupe ''k'' ''f2'', Dedupe ''other'' ''g'', Settle 1 ''done'', Dedupe ''k'' ''f3'']"
      "''value''"]
  by (simp add: dedupe_example_1 dedupe_def settle_def Let_def invoked_def
      dedup_example_def new_RequestDeduplicator_def)

lemma newer_step: "newer key n d \<Longrightarrow> newer key n (dedup_step ev d)"
proof (cases ev)
  case (Dedupe key' f)
  assume "newer key n d"
  with Dedupe show ?thesis
    by (auto simp: newer_def dedupe_def Let_def split: option.splits)
next
  case (Settle p out)
  assume "newer key n d"
  with Settle show ?thesis
    by (auto simp: newer_def settle_def Let_def split: option.splits)
next
  case Clear
  assume "newer key n d"
  with Clear show ?thesis by (simp add: newer_def clear_def)
qed

lemma newer_dedupe: "newer key n d \<Longrightarrow> n \<le> fst (dedupe key f d)"
  by (auto simp: newer_def dedupe_def Let_def split: option.splits)

lemma newer_returned: "newer key n d \<Longrightarrow> \<forall>q \<in> set (returned key evs d). n \<le> q"
proof (induction evs arbitrary: d)
  case Nil
  then show ?case by simp
next
  case (Cons ev evs)
  have "newer key n (dedup_step ev d)" using Cons.prems by (rule newer_step)
  from Cons.IH [OF this] newer_dedupe [OF Cons.prems] show ?case
    by (cases ev) auto
qed

lemma settle_newer:
  assumes "p < length (promises d)" and "outcome (promises d ! p) = None"
    and "cleanup_key (promises d ! p) = key"
  shows "newer key (length (promises d)) (settle p out d)"
  using assms by (simp add: newer_def settle_def Let_def)


text \<open>
  After \<open>clear\<close> no key is registered: the next call for a key calls its supplier
  even when an earlier promise for the key is unsettled. This is why \<open>undisturbed\<close>
  admits no \<open>Clear\<close> event.
\<close>

lemma clear_then_dedupe:
  "fst (dedupe key g (clear d)) = length (promises d)
   \<and> invoked key (snd (dedupe key g (clear d))) = invoked key d @ [g]"
  by (simp add: dedupe_def clear_def invoked_def Let_def)

text \<open>
  C9: when a promise created for a key settles, with a value or with a rejection, the
  key is removed from the pending map in the same step in which the outcome becomes
  observable, whatever is registered under the key. The next \<open>dedupe\<close> call for the
  key calls its supplier and returns a new promise, and every later \<open>dedupe\<close> call
  for the key, in any interleaving, returns a promise created after the settlement,
  never the settled one.
\<close>

theorem settle_then_fresh:
  assumes "p < length (promises d)" and "outcome (promises d ! p) = None"
    and "cleanup_key (promises d ! p) = key"
  shows "pending (settle p out d) key = None
     \<and> \<not> isPending key (settle p out d)
     \<and> observed p (settle p out d) = Some out
     \<and> fst (dedupe key g (settle p out d)) = length (promises d)
     \<and> invoked key (snd (dedupe key g (settle p out d))) = invoked key d @ [g]
     \<and> (\<forall>q \<in> set (returned key evs (settle p out d)). p < q)"
proof -
  have 1: "pending (settle p out d) key = None"
    using assms by (simp add: settle_def Let_def)
  have 2: "observed p (settle p out d) = Some out"
    using assms by (simp add: settle_def Let_def observed_def)
  have 3: "fst (dedupe key g (settle p out d)) = length (promises d)"
    using 1 by (simp add: dedupe_def Let_def)
  have 4: "invoked key (snd (dedupe key g (settle p out d))) = invoked key d @ [g]"
    using 1 by (simp add: invoked_dedupe)
  have "\<forall>q \<in> set (returned key evs (settle p out d)). length (promises d) \<le> q"
    using settle_newer [OF assms] by (rule newer_returned)
  then have 5: "\<forall>q \<in> set (returned key evs (settle p out d)). p < q"
    using assms(1) by auto
  from 1 2 3 4 5 show ?thesis by (simp add: isPending_def)
qed

theorem settle_then_fresh_witness:
  "outcome (promises (snd (dedupe ''k'' ''f1'' dedup_example)) ! 0) = None
   \<and> cleanup_key (promises (snd (dedupe ''k'' ''f1'' dedup_example)) ! 0) = ''k''
   \<and> pending (settle 0 ''failed'' (snd (dedupe ''k'' ''f1'' dedup_example))) ''k'' = None
   \<and> fst (dedupe ''k'' ''f2'' (settle 0 ''failed'' (snd (dedupe ''k'' ''f1'' dedup_example)))) = 1
   \<and> invoked ''k'' (snd (dedupe ''k'' ''f2''
         (settle 0 ''failed'' (snd (dedupe ''k'' ''f1'' dedup_example))))) = [''f1'', ''f2'']
   \<and> returned ''k'' [Dedupe ''k'' ''f2'', Dedupe ''k'' ''f3'', Settle 1 ''ok'', Dedupe ''k'' ''f4'']
         (settle 0 ''failed'' (snd (dedupe ''k'' ''f1'' dedup_example))) = [1, 1, 2]"
proof -
  let ?d1 = "snd (dedupe ''k'' ''f1'' dedup_example)"
  have h1: "0 < length (promises ?d1)" by (simp add: dedupe_example_1)
  have h2: "outcome (promises ?d1 ! 0) = None" by (simp add: dedupe_example_1)
  have h3: "cleanup_key (promises ?d1 ! 0) = ''k''" by (simp add: dedupe_example_1)
  have i: "invoked ''k'' ?d1 = [''f1'']" by (simp add: dedupe_example_1 invoked_def)
  have l: "length (promises ?d1) = 1" by (simp add: dedupe_example_1)
  note t = settle_then_fresh [OF h1 h2 h3, of "''failed''" "''f2''"]
  from t h2 h3 i l show ?thesis
    by (simp only: settle_example_1 returned_example_1 append.simps)
qed

section \<open>Properties of the API client\<close>

subsection \<open>One attempt and the retry\<close>

declare apiRequest.simps [simp del]

lemma same_env_refl [simp]: "same_env w w"
  by (simp add: same_env_def)

lemma same_env_trans: "same_env w w1 \<Longrightarrow> same_env w1 w2 \<Longrightarrow> same_env w w2"
  by (simp add: same_env_def)

lemma fetchWithTimeout_csrf:
  "site call = CsrfSite \<Longrightarrow> same_env w (snd (fetchWithTimeout call t w))"
  by (simp add: fetchWithTimeout_def Let_def same_env_def calls_at_def)

lemma fetchCsrfToken_env: "same_env w (snd (fetchCsrfToken w))"
proof -
  let ?call = "\<lparr> site = CsrfSite, req_url = getApiBaseUrl w @ ENDPOINT_CSRF_TOKEN,
               req_method = Some ''GET'', req_headers = Map.empty, req_body = None \<rparr>"
  have "same_env w (snd (fetchWithTimeout ?call CSRF_TIMEOUT_MS w))"
    by (rule fetchWithTimeout_csrf) simp
  then show ?thesis
    by (auto simp: fetchCsrfToken_def Let_def same_env_def calls_at_def
        split: prod.splits sum.splits)
qed

lemma getCsrfToken_env: "same_env w (snd (getCsrfToken w))"
  using fetchCsrfToken_env [of w]
  by (auto simp: getCsrfToken_def same_env_def calls_at_def)

lemma attach_cookie_env: "same_env w (snd (attach_cookie options hs w))"
  by (auto simp: attach_cookie_def same_env_def calls_at_def split: option.splits list.splits)

lemma attach_csrf_env: "same_env w (snd (attach_csrf options hs w))"
  using getCsrfToken_env [of w]
  by (auto simp: attach_csrf_def same_env_def calls_at_def split: prod.splits sum.splits)

lemma fetchWithTimeout_api:
  assumes "site call = ApiSite"
  shows "fst (fetchWithTimeout call t w) = answer_of t (apiServer w (length (calls_at ApiSite w)))"
    and "calls_at ApiSite (snd (fetchWithTimeout call t w)) = calls_at ApiSite w @ [call]"
    and "apiServer (snd (fetchWithTimeout call t w)) = apiServer w"
    and "limiter (snd (fetchWithTimeout call t w)) = limiter w"
    and "calls_at CsrfSite (snd (fetchWithTimeout call t w)) = calls_at CsrfSite w"
  using assms
  by (simp_all add: fetchWithTimeout_def Let_def calls_at_def)

lemma compose_request_env: "same_env w (snd (compose_request endpoint options w))"
proof -
  let ?hs = "[''Content-Type'' \<mapsto> ''application/json''] ++ headers options"
  obtain hs1 w1 where c: "attach_cookie options ?hs w = (hs1, w1)"
    by (cases "attach_cookie options ?hs w")
  obtain hs2 w2 where t: "attach_csrf options hs1 w1 = (hs2, w2)"
    by (cases "attach_csrf options hs1 w1")
  have e1: "same_env w w1" using attach_cookie_env [of w options ?hs] c by simp
  have e2: "same_env w1 w2" using attach_csrf_env [of w1 options hs1] t by simp
  have "same_env w w2" using e1 e2 by (rule same_env_trans)
  then show ?thesis using c t by (simp add: compose_request_def Let_def)
qed

lemma compose_request_site [simp]: "site (fst (compose_request endpoint options w)) = ApiSite"
  by (simp add: compose_request_def Let_def split: prod.splits)

lemma send_request_facts:
  "fst (send_request endpoint options w)
     = answer_of REQUEST_TIMEOUT_MS (apiServer w (length (calls_at ApiSite w)))"
  "calls_at ApiSite (snd (send_request endpoint options w))
     = calls_at ApiSite w @ [fst (compose_request endpoint options w)]"
  "apiServer (snd (send_request endpoint options w)) = apiServer w"
  "limiter (snd (send_request endpoint options w)) = limiter w"
proof -
  obtain call w2 where c: "compose_request endpoint options w = (call, w2)"
    by (cases "compose_request endpoint options w")
  have e: "same_env w w2" using compose_request_env [of w endpoint options] c by simp
  have a: "site call = ApiSite" using compose_request_site [of endpoint options w] c by simp
  have s: "send_request endpoint options w = fetchWithTimeout call REQUEST_TIMEOUT_MS w2"
    using c by (simp add: send_request_def)
  show "fst (send_request endpoint options w)
     = answer_of REQUEST_TIMEOUT_MS (apiServer w (length (calls_at ApiSite w)))"
    using fetchWithTimeout_api(1) [OF a, of REQUEST_TIMEOUT_MS w2] e s
    by (simp add: same_env_def)
  show "calls_at ApiSite (snd (send_request endpoint options w))
     = calls_at ApiSite w @ [fst (compose_request endpoint options w)]"
    using fetchWithTimeout_api(2) [OF a, of REQUEST_TIMEOUT_MS w2] e s c
    by (simp add: same_env_def)
  show "apiServer (snd (send_request endpoint options w)) = apiServer w"
    using fetchWithTimeout_api(3) [OF a, of REQUEST_TIMEOUT_MS w2] e s
    by (simp add: same_env_def)
  show "limiter (snd (send_request endpoint options w)) = limiter w"
    using fetchWithTimeout_api(4) [OF a, of REQUEST_TIMEOUT_MS w2] e s
    by (simp add: same_env_def)
qed

lemma tokens_only_refl [simp]: "tokens_only l l"
  by (simp add: tokens_only_def)

lemma tokens_only_trans: "tokens_only l l1 \<Longrightarrow> tokens_only l1 l2 \<Longrightarrow> tokens_only l l2"
  by (auto simp: tokens_only_def) (metis RateLimiter.update_convs(4) RateLimiter.surjective)

lemma updateFromHeaders_tokens_only:
  "updateFromHeaders a b c l = Inr l' \<Longrightarrow> tokens_only l l'"
  by (auto simp: tokens_only_def updateFromHeaders_def split: if_splits js_number.splits)

lemma note_rate_limit_ok: "rate_limit_ok r \<Longrightarrow> note_rate_limit r w = Inr (noted r w)"
  by (auto simp: rate_limit_ok_def noted_def note_rate_limit_def updateFromHeaders_def
      split: option.splits js_number.splits)

lemma note_rate_limit_throws:
  "\<not> rate_limit_ok r \<Longrightarrow> note_rate_limit r w = Inl invalid_time_error"
  by (auto simp: rate_limit_ok_def note_rate_limit_def updateFromHeaders_def
      split: option.splits)

lemma noted_throws: "\<not> rate_limit_ok r \<Longrightarrow> noted r w = w"
  by (simp add: noted_def note_rate_limit_throws)

lemma noted_plain: "parseRateLimitHeaders r = None \<Longrightarrow> noted r w = w"
  by (simp add: noted_def note_rate_limit_def)

lemma noted_facts:
  "calls_at st (noted r w) = calls_at st w"
  "apiServer (noted r w) = apiServer w"
  "tokens_only (limiter w) (limiter (noted r w))"
  by (auto simp: noted_def note_rate_limit_def calls_at_def
      split: option.splits sum.splits dest: updateFromHeaders_tokens_only)

lemma catch_invalid_time:
  "catch_error invalid_time_error = new_ExtensionError SERVER_ERROR (Some ''UNKNOWN_ERROR'') None"
  by (simp add: catch_error_def invalid_time_error_def instanceof_ExtensionError_def)

lemma clearCsrfToken_facts [simp]:
  "calls_at st (clearCsrfToken w) = calls_at st w"
  "apiServer (clearCsrfToken w) = apiServer w"
  "limiter (clearCsrfToken w) = limiter w"
  "csrfToken (clearCsrfToken w) = None"
  "storage (clearCsrfToken w) KEY_CSRF_TOKEN = None"
  by (simp_all add: clearCsrfToken_def calls_at_def)

lemma handleErrorResponse_instance: "instanceof_ExtensionError (handleErrorResponse r)"
  by (simp add: handleErrorResponse_def Let_def instanceof_ExtensionError_def
      new_AuthenticationError_def new_ValidationError_def new_ExtensionError_def)

lemma catch_handleErrorResponse [simp]:
  "catch_error (handleErrorResponse r) = handleErrorResponse r"
  by (simp add: catch_error_def handleErrorResponse_instance)

lemma apiRequest_retry:
  assumes "retry_enabled options"
    and "apiServer w (length (calls_at ApiSite w)) = Resp r1"
    and "status r1 = UNAUTHORIZED"
    and "rate_limit_ok r1"
  shows "apiRequest endpoint options w
     = apiRequest endpoint (options\<lparr> retryOn401 := Some False \<rparr>)
         (clearCsrfToken (noted r1 (snd (send_request endpoint options w))))"
proof -
  obtain a w1 where s: "send_request endpoint options w = (a, w1)"
    by (cases "send_request endpoint options w")
  have a: "a = Inr r1"
    using send_request_facts(1) [of endpoint options w] s assms(2) by (simp add: answer_of_def)
  have n: "note_rate_limit r1 w1 = Inr (noted r1 w1)"
    using assms(4) by (rule note_rate_limit_ok)
  from s a n assms(1,3) show ?thesis
    by (subst apiRequest.simps) simp
qed

lemma apiRequest_throws:
  assumes "apiServer w (length (calls_at ApiSite w)) = Resp r" and "\<not> rate_limit_ok r"
  shows "apiRequest endpoint options w
     = (Inl (new_ExtensionError SERVER_ERROR (Some ''UNKNOWN_ERROR'') None),
        snd (send_request endpoint options w))"
proof -
  obtain a w1 where s: "send_request endpoint options w = (a, w1)"
    by (cases "send_request endpoint options w")
  have a: "a = Inr r"
    using send_request_facts(1) [of endpoint options w] s assms(1) by (simp add: answer_of_def)
  have n: "note_rate_limit r w1 = Inl invalid_time_error"
    using assms(2) by (rule note_rate_limit_throws)
  from s a n show ?thesis
    by (subst apiRequest.simps) (simp add: catch_invalid_time)
qed

lemma apiRequest_direct_world:
  assumes "\<not> (retry_enabled options
             \<and> (\<exists>r1. apiServer w (length (calls_at ApiSite w)) = Resp r1
                      \<and> status r1 = UNAUTHORIZED \<and> rate_limit_ok r1))"
  shows "snd (apiRequest endpoint options w)
           = (case fst (send_request endpoint options w) of
                Inl e \<Rightarrow> snd (send_request endpoint options w)
              | Inr r \<Rightarrow> noted r (snd (send_request endpoint options w)))"
proof -
  obtain a w1 where s: "send_request endpoint options w = (a, w1)"
    by (cases "send_request endpoint options w")
  have a: "a = answer_of REQUEST_TIMEOUT_MS (apiServer w (length (calls_at ApiSite w)))"
    using send_request_facts(1) [of endpoint options w] s by simp
  show ?thesis
  proof (cases a)
    case (Inl e)
    with s show ?thesis by (subst apiRequest.simps) simp
  next
    case (Inr r)
    then have v: "apiServer w (length (calls_at ApiSite w)) = Resp r"
      using a by (auto simp: answer_of_def split: fetch_result.splits)
    show ?thesis
    proof (cases "rate_limit_ok r")
      case True
      then have n: "note_rate_limit r w1 = Inr (noted r w1)" by (rule note_rate_limit_ok)
      have "\<not> (status r = UNAUTHORIZED \<and> retry_enabled options)"
        using assms v True by auto
      with s Inr n show ?thesis
        by (subst apiRequest.simps) (auto split: sum.splits)
    next
      case False
      then have "apiRequest endpoint options w
          = (Inl (new_ExtensionError SERVER_ERROR (Some ''UNKNOWN_ERROR'') None),
             snd (send_request endpoint options w))"
        using v by (simp add: apiRequest_throws)
      with s Inr False show ?thesis by (simp add: noted_throws)
    qed
  qed
qed

lemma apiRequest_direct:
  assumes "\<not> (retry_enabled options
             \<and> (\<exists>r1. apiServer w (length (calls_at ApiSite w)) = Resp r1
                      \<and> status r1 = UNAUTHORIZED \<and> rate_limit_ok r1))"
  shows "calls_at ApiSite (snd (apiRequest endpoint options w))
           = calls_at ApiSite w @ [fst (compose_request endpoint options w)]"
    and "apiServer (snd (apiRequest endpoint options w)) = apiServer w"
    and "tokens_only (limiter w) (limiter (snd (apiRequest endpoint options w)))"
proof -
  note w = apiRequest_direct_world [OF assms, of endpoint]
  show "calls_at ApiSite (snd (apiRequest endpoint options w))
           = calls_at ApiSite w @ [fst (compose_request endpoint options w)]"
    using w by (simp add: noted_facts send_request_facts split: sum.splits)
  show "apiServer (snd (apiRequest endpoint options w)) = apiServer w"
    using w by (simp add: noted_facts send_request_facts split: sum.splits)
  show "tokens_only (limiter w) (limiter (snd (apiRequest endpoint options w)))"
    using w noted_facts(3) [of "snd (send_request endpoint options w)"]
    by (auto simp: send_request_facts split: sum.splits)
qed

lemma apiRequest_direct_result:
  assumes "\<not> (retry_enabled options
             \<and> (\<exists>r1. apiServer w (length (calls_at ApiSite w)) = Resp r1
                      \<and> status r1 = UNAUTHORIZED))"
    and "\<forall>r. apiServer w (length (calls_at ApiSite w)) = Resp r \<longrightarrow> rate_limit_ok r"
  shows "fst (apiRequest endpoint options w)
           = classify (answer_of REQUEST_TIMEOUT_MS (apiServer w (length (calls_at ApiSite w))))"
proof -
  obtain a w1 where s: "send_request endpoint options w = (a, w1)"
    by (cases "send_request endpoint options w")
  have a: "a = answer_of REQUEST_TIMEOUT_MS (apiServer w (length (calls_at ApiSite w)))"
    using send_request_facts(1) [of endpoint options w] s by simp
  have "fst (apiRequest endpoint options w) = classify a"
  proof (cases a)
    case (Inl e)
    with s show ?thesis by (subst apiRequest.simps) (simp add: classify_def)
  next
    case (Inr r)
    then have v: "apiServer w (length (calls_at ApiSite w)) = Resp r"
      using a by (auto simp: answer_of_def split: fetch_result.splits)
    have n: "note_rate_limit r w1 = Inr (noted r w1)"
      using assms(2) v by (simp add: note_rate_limit_ok)
    have "\<not> (status r = UNAUTHORIZED \<and> retry_enabled options)"
      using assms(1) v by auto
    with s Inr n show ?thesis
      by (subst apiRequest.simps) (auto simp: classify_def split: sum.splits)
  qed
  then show ?thesis using a by simp
qed

lemma retry_disabled [simp]: "\<not> retry_enabled (options\<lparr> retryOn401 := Some False \<rparr>)"
  by (simp add: retry_enabled_def)

lemma attach_cookie_log [simp]: "fetchLog (snd (attach_cookie options hs w)) = fetchLog w"
  by (simp add: attach_cookie_def split: option.splits list.splits)

lemma compose_request_log:
  "\<not> needs_csrf options \<Longrightarrow> fetchLog (snd (compose_request endpoint options w)) = fetchLog w"
proof -
  assume n: "\<not> needs_csrf options"
  let ?hs = "[''Content-Type'' \<mapsto> ''application/json''] ++ headers options"
  obtain hs1 w1 where c: "attach_cookie options ?hs w = (hs1, w1)"
    by (cases "attach_cookie options ?hs w")
  have "fetchLog w1 = fetchLog w" using attach_cookie_log [of options ?hs w] c by simp
  with n c show ?thesis by (simp add: compose_request_def attach_csrf_def Let_def)
qed

lemma send_request_log:
  "fetchLog (snd (send_request endpoint options w))
     = fetchLog (snd (compose_request endpoint options w)) @ [fst (compose_request endpoint options w)]"
  by (simp add: send_request_def fetchWithTimeout_def Let_def split: prod.splits)

lemma noted_log [simp]: "fetchLog (noted r w) = fetchLog w"
  by (simp add: noted_def note_rate_limit_def split: option.splits sum.splits)

lemma clearCsrfToken_log [simp]: "fetchLog (clearCsrfToken w) = fetchLog w"
  by (simp add: clearCsrfToken_def)

lemma apiRequest_direct_log:
  assumes "\<not> (retry_enabled options
             \<and> (\<exists>r1. apiServer w (length (calls_at ApiSite w)) = Resp r1
                      \<and> status r1 = UNAUTHORIZED \<and> rate_limit_ok r1))"
    and "\<not> needs_csrf options"
  shows "length (fetchLog (snd (apiRequest endpoint options w))) = length (fetchLog w) + 1"
  using apiRequest_direct_world [OF assms(1), of endpoint]
    send_request_log [of endpoint options w] compose_request_log [OF assms(2), of endpoint w]
  by (simp split: sum.splits)

lemma needs_csrf_retry [simp]:
  "needs_csrf (options\<lparr> retryOn401 := x \<rparr>) = needs_csrf options"
  by (simp add: needs_csrf_def skip_auth_def)

lemma apiRequest_log_le:
  assumes "\<not> needs_csrf options"
  shows "length (fetchLog (snd (apiRequest endpoint options w))) \<le> length (fetchLog w) + 2"
proof (cases "retry_enabled options
             \<and> (\<exists>r1. apiServer w (length (calls_at ApiSite w)) = Resp r1
                      \<and> status r1 = UNAUTHORIZED \<and> rate_limit_ok r1)")
  case False
  then show ?thesis using apiRequest_direct_log [OF _ assms, of w endpoint] by simp
next
  case True
  then obtain r1 where r: "apiServer w (length (calls_at ApiSite w)) = Resp r1"
    "status r1 = UNAUTHORIZED" "rate_limit_ok r1" and e: "retry_enabled options" by blast
  let ?w = "clearCsrfToken (noted r1 (snd (send_request endpoint options w)))"
  let ?o = "options\<lparr> retryOn401 := Some False \<rparr>"
  have "apiRequest endpoint options w = apiRequest endpoint ?o ?w"
    using e r by (rule apiRequest_retry)
  moreover have "length (fetchLog (snd (apiRequest endpoint ?o ?w))) = length (fetchLog ?w) + 1"
    by (rule apiRequest_direct_log) (simp_all add: assms)
  moreover have "length (fetchLog ?w) = length (fetchLog w) + 1"
    using send_request_log [of endpoint options w] compose_request_log [OF assms, of endpoint w]
    by simp
  ultimately show ?thesis by simp
qed

lemma apiRequest_limiter:
  "tokens_only (limiter w) (limiter (snd (apiRequest endpoint options w)))"
proof (cases "retry_enabled options
             \<and> (\<exists>r1. apiServer w (length (calls_at ApiSite w)) = Resp r1
                      \<and> status r1 = UNAUTHORIZED \<and> rate_limit_ok r1)")
  case False
  then show ?thesis by (rule apiRequest_direct(3))
next
  case True
  then obtain r1 where r: "apiServer w (length (calls_at ApiSite w)) = Resp r1"
    "status r1 = UNAUTHORIZED" "rate_limit_ok r1" and e: "retry_enabled options" by blast
  let ?w1 = "snd (send_request endpoint options w)"
  let ?w = "clearCsrfToken (noted r1 ?w1)"
  let ?o = "options\<lparr> retryOn401 := Some False \<rparr>"
  have eq: "apiRequest endpoint options w = apiRequest endpoint ?o ?w"
    using e r by (rule apiRequest_retry)
  have 1: "tokens_only (limiter w) (limiter ?w)"
    using noted_facts(3) [of ?w1 r1] by (simp add: send_request_facts)
  have 2: "tokens_only (limiter ?w) (limiter (snd (apiRequest endpoint ?o ?w)))"
    by (rule apiRequest_direct(3)) simp
  from 1 2 eq show ?thesis using tokens_only_trans by metis
qed

lemma apiRequest_calls_ge:
  "length (calls_at ApiSite w) + 1 \<le> length (calls_at ApiSite (snd (apiRequest endpoint options w)))"
proof (cases "retry_enabled options
             \<and> (\<exists>r1. apiServer w (length (calls_at ApiSite w)) = Resp r1
                      \<and> status r1 = UNAUTHORIZED \<and> rate_limit_ok r1)")
  case False
  then show ?thesis using apiRequest_direct(1) [of options w endpoint] by simp
next
  case True
  then obtain r1 where r: "apiServer w (length (calls_at ApiSite w)) = Resp r1"
    "status r1 = UNAUTHORIZED" "rate_limit_ok r1" and e: "retry_enabled options" by blast
  let ?w = "clearCsrfToken (noted r1 (snd (send_request endpoint options w)))"
  let ?o = "options\<lparr> retryOn401 := Some False \<rparr>"
  have "apiRequest endpoint options w = apiRequest endpoint ?o ?w"
    using e r by (rule apiRequest_retry)
  moreover have "calls_at ApiSite (snd (apiRequest endpoint ?o ?w))
      = calls_at ApiSite ?w @ [fst (compose_request endpoint ?o ?w)]"
    by (rule apiRequest_direct(1)) simp
  moreover have "length (calls_at ApiSite ?w) = length (calls_at ApiSite w) + 1"
    by (simp add: noted_facts send_request_facts)
  ultimately show ?thesis by simp
qed

lemma apiRequest_calls_le:
  "length (calls_at ApiSite (snd (apiRequest endpoint options w)))
     \<le> length (calls_at ApiSite w) + 2"
proof (cases "retry_enabled options
             \<and> (\<exists>r1. apiServer w (length (calls_at ApiSite w)) = Resp r1
                      \<and> status r1 = UNAUTHORIZED \<and> rate_limit_ok r1)")
  case False
  then show ?thesis using apiRequest_direct(1) [of options w endpoint] by simp
next
  case True
  then obtain r1 where r: "apiServer w (length (calls_at ApiSite w)) = Resp r1"
    "status r1 = UNAUTHORIZED" "rate_limit_ok r1" and e: "retry_enabled options" by blast
  let ?w = "clearCsrfToken (noted r1 (snd (send_request endpoint options w)))"
  let ?o = "options\<lparr> retryOn401 := Some False \<rparr>"
  have "apiRequest endpoint options w = apiRequest endpoint ?o ?w"
    using e r by (rule apiRequest_retry)
  moreover have "calls_at ApiSite (snd (apiRequest endpoint ?o ?w))
      = calls_at ApiSite ?w @ [fst (compose_request endpoint ?o ?w)]"
    by (rule apiRequest_direct(1)) simp
  moreover have "length (calls_at ApiSite ?w) = length (calls_at ApiSite w) + 1"
    by (simp add: noted_facts send_request_facts)
  ultimately show ?thesis by simp
qed

lemma unauthorized_not_ok: "status r = UNAUTHORIZED \<Longrightarrow> \<not> ok r"
  by (simp add: ok_def UNAUTHORIZED_def)

lemma handleErrorResponse_401:
  "status r = UNAUTHORIZED \<Longrightarrow> cls (handleErrorResponse r) = AuthenticationError"
  by (simp add: handleErrorResponse_def Let_def new_AuthenticationError_def)

lemma handleErrorResponse_429:
  "status r = TOO_MANY_REQUESTS \<Longrightarrow>
   handleErrorResponse r
     = new_ExtensionError RATE_LIMIT_EXCEEDED (Some ''RATE_LIMIT'') (Some TOO_MANY_REQUESTS)"
  by (simp add: handleErrorResponse_def Let_def TOO_MANY_REQUESTS_def UNAUTHORIZED_def
      FORBIDDEN_def BAD_REQUEST_def)

lemma ok_not_unauthorized: "ok r \<Longrightarrow> status r \<noteq> UNAUTHORIZED"
  by (auto simp: ok_def UNAUTHORIZED_def)

lemma apiRequest_ok_plain:
  assumes "apiServer w (length (calls_at ApiSite w)) = Resp r" and "ok r"
    and "json r = Inr b" and "parseRateLimitHeaders r = None"
  shows "fst (apiRequest endpoint options w) = Inr (payload b)"
    and "length (calls_at ApiSite (snd (apiRequest endpoint options w)))
           = length (calls_at ApiSite w) + 1"
    and "limiter (snd (apiRequest endpoint options w)) = limiter w"
proof -
  have d: "\<not> (retry_enabled options
      \<and> (\<exists>r1. apiServer w (length (calls_at ApiSite w)) = Resp r1 \<and> status r1 = UNAUTHORIZED))"
    using assms(1,2) ok_not_unauthorized by auto
  then have d': "\<not> (retry_enabled options
             \<and> (\<exists>r1. apiServer w (length (calls_at ApiSite w)) = Resp r1
                      \<and> status r1 = UNAUTHORIZED \<and> rate_limit_ok r1))"
    by blast
  have k: "\<forall>r. apiServer w (length (calls_at ApiSite w)) = Resp r \<longrightarrow> rate_limit_ok r"
    using assms(1,4) by (simp add: rate_limit_ok_def)
  show "fst (apiRequest endpoint options w) = Inr (payload b)"
    using apiRequest_direct_result [OF d k, of endpoint] assms
    by (simp add: classify_def answer_of_def)
  show "length (calls_at ApiSite (snd (apiRequest endpoint options w)))
           = length (calls_at ApiSite w) + 1"
    using apiRequest_direct(1) [OF d', of endpoint] by simp
  have "fst (send_request endpoint options w) = Inr r"
    using send_request_facts(1) [of endpoint options w] assms(1) by (simp add: answer_of_def)
  then show "limiter (snd (apiRequest endpoint options w)) = limiter w"
    using apiRequest_direct_world [OF d', of endpoint] assms(4)
    by (simp add: noted_plain send_request_facts)
qed

subsection \<open>Evaluation of the example worlds\<close>

lemma example_world_sel [simp]:
  "apiServer (example_world api csrf) = api"
  "csrfServer (example_world api csrf) = csrf"
  "fetchLog (example_world api csrf) = []"
  "calls_at st (example_world api csrf) = []"
  "csrfToken (example_world api csrf) = None"
  "storage (example_world api csrf) = Map.empty"
  "limiter (example_world api csrf) = globalRateLimiter 0"
  by (simp_all add: example_world_def calls_at_def)

lemma retry_enabled_examples [simp]: "retry_enabled get_options" "retry_enabled post_options"
  by (simp_all add: retry_enabled_def get_options_def post_options_def)

lemma plain_response_sel [simp]:
  "status (plain_response st txt b) = st"
  "json (plain_response st txt b) = b"
  "parseRateLimitHeaders (plain_response st txt b) = None"
  by (simp_all add: plain_response_def parseRateLimitHeaders_def)

lemma example_client_sel [simp]:
  "pending (dedup (example_client api)) key = None"
  "promises (dedup (example_client api)) = []"
  "world (example_client api) = example_world api server_down"
  "pending (dedup exhausted_client) key = None"
  "promises (dedup exhausted_client) = []"
  by (simp_all add: example_client_def exhausted_client_def new_RequestDeduplicator_def)

lemma exhausted_world_sel [simp]:
  "apiServer (world exhausted_client) = always_ok"
  "calls_at st (world exhausted_client) = []"
  "limiter (world exhausted_client) = (globalRateLimiter 0)\<lparr> tokens := 0 \<rparr>"
  by (simp_all add: exhausted_client_def calls_at_def example_world_def)

lemma always_ok_facts:
  "always_ok n = Resp (plain_response 200 ''OK'' (Inr (data_body ''projects'')))"
  "ok (plain_response 200 ''OK'' (Inr (data_body ''projects'')) :: string Response)"
  by (simp_all add: always_ok_def ok_def)

lemma slow_down_facts:
  "status slow_down_response = TOO_MANY_REQUESTS"
  "json slow_down_response = Inr (error_body ''slow down'')"
  by (simp_all add: slow_down_response_def TOO_MANY_REQUESTS_def)

lemma server_down_csrf:
  "isl (fst (getCsrfToken (example_world api server_down)))"
  by (simp add: getCsrfToken_def fetchCsrfToken_def fetchWithTimeout_def answer_of_def
      truthy_def Let_def server_down_def ok_def)

lemma needs_csrf_post [simp]: "needs_csrf post_options"
  by (simp add: needs_csrf_def post_options_def skip_auth_def truthy_def)

subsection \<open>The single retry after a 401\<close>

text \<open>
  A call of \<open>apiRequest\<close> sends its request at most twice (lemma \<open>apiRequest_calls_le\<close>).
  With the retry enabled and a first response of status 401 whose rate-limit headers
  \<open>updateFromHeaders\<close> takes without a throw, the call is the call with the retry
  disabled in the world where the cached anti-forgery token has been discarded, from the
  module variable and from the storage; the request is sent exactly twice and, when the
  rate-limit headers of the second response are taken as well, the result is the
  classification of the second answer alone.
\<close>

lemma apiRequest_retry_once:
  assumes "retry_enabled options"
    and "apiServer w (length (calls_at ApiSite w)) = Resp r1"
    and "status r1 = UNAUTHORIZED"
    and "rate_limit_ok r1"
  shows "apiRequest endpoint options w
           = apiRequest endpoint (options\<lparr> retryOn401 := Some False \<rparr>)
               (clearCsrfToken (noted r1 (snd (send_request endpoint options w))))"
    and "csrfToken (clearCsrfToken (noted r1 (snd (send_request endpoint options w)))) = None"
    and "storage (clearCsrfToken (noted r1 (snd (send_request endpoint options w))))
           KEY_CSRF_TOKEN = None"
    and "length (calls_at ApiSite (snd (apiRequest endpoint options w)))
           = length (calls_at ApiSite w) + 2"
    and "(\<forall>r2. apiServer w (length (calls_at ApiSite w) + 1) = Resp r2 \<longrightarrow> rate_limit_ok r2)
         \<Longrightarrow> fst (apiRequest endpoint options w)
               = classify (answer_of REQUEST_TIMEOUT_MS
                            (apiServer w (length (calls_at ApiSite w) + 1)))"
proof -
  let ?w = "clearCsrfToken (noted r1 (snd (send_request endpoint options w)))"
  let ?o = "options\<lparr> retryOn401 := Some False \<rparr>"
  show eq: "apiRequest endpoint options w = apiRequest endpoint ?o ?w"
    using assms by (rule apiRequest_retry)
  show "csrfToken ?w = None" by simp
  show "storage ?w KEY_CSRF_TOKEN = None" by simp
  have n: "length (calls_at ApiSite ?w) = length (calls_at ApiSite w) + 1"
    by (simp add: noted_facts send_request_facts)
  have v: "apiServer ?w = apiServer w"
    by (simp add: noted_facts send_request_facts)
  have "calls_at ApiSite (snd (apiRequest endpoint ?o ?w))
      = calls_at ApiSite ?w @ [fst (compose_request endpoint ?o ?w)]"
    by (rule apiRequest_direct(1)) simp
  then show "length (calls_at ApiSite (snd (apiRequest endpoint options w)))
           = length (calls_at ApiSite w) + 2"
    using eq n by simp
  show "fst (apiRequest endpoint options w)
      = classify (answer_of REQUEST_TIMEOUT_MS (apiServer w (length (calls_at ApiSite w) + 1)))"
    if k: "\<forall>r2. apiServer w (length (calls_at ApiSite w) + 1) = Resp r2 \<longrightarrow> rate_limit_ok r2"
  proof -
    have "fst (apiRequest endpoint ?o ?w)
        = classify (answer_of REQUEST_TIMEOUT_MS (apiServer ?w (length (calls_at ApiSite ?w))))"
      by (rule apiRequest_direct_result) (simp_all add: noted_facts send_request_facts k)
    then show ?thesis using eq n v by simp
  qed
qed

lemma send_request_get_token:
  "csrfToken (snd (send_request endpoint get_options w)) = csrfToken w"
  by (simp add: send_request_def compose_request_def attach_cookie_def attach_csrf_def
      needs_csrf_def get_options_def fetchWithTimeout_def Let_def
      split: option.splits list.splits)

text \<open>
  C2: the retry is lost when the first response, a 401, carries the three rate-limit
  headers with a reset time that \<open>Date\<close> cannot represent. \<open>updateFromHeaders\<close> throws
  while it builds its log line, before the status of the response is looked at, and the
  \<open>catch\<close> block of \<open>apiRequest\<close> makes the \<open>UNKNOWN_ERROR\<close> of it: the request has
  been sent once, the cached anti-forgery token is kept, and the caller gets neither the
  result of the 200 response that a second request would have received nor an
  \<open>AuthenticationError\<close>.
\<close>

theorem apiRequest_retry_lost:
  "retry_enabled get_options
   \<and> apiServer bad_reset_world (length (calls_at ApiSite bad_reset_world)) = Resp bad_reset_401
   \<and> status bad_reset_401 = UNAUTHORIZED
   \<and> hdr_reset bad_reset_401 = Some NaN
   \<and> apiServer bad_reset_world (length (calls_at ApiSite bad_reset_world) + 1)
       = Resp (plain_response 200 ''OK'' (Inr (data_body ''projects'')))
   \<and> fst (apiRequest ENDPOINT_PROJECTS get_options bad_reset_world)
       = Inl (new_ExtensionError SERVER_ERROR (Some ''UNKNOWN_ERROR'') None)
   \<and> length (calls_at ApiSite (snd (apiRequest ENDPOINT_PROJECTS get_options bad_reset_world)))
       = 1
   \<and> csrfToken (snd (apiRequest ENDPOINT_PROJECTS get_options bad_reset_world))
       = Some ''cached''"
proof -
  have c: "calls_at ApiSite bad_reset_world = []"
    by (simp add: bad_reset_world_def calls_at_def example_world_def)
  have v: "apiServer bad_reset_world = bad_reset_then_ok"
    by (simp add: bad_reset_world_def)
  have a: "apiServer bad_reset_world (length (calls_at ApiSite bad_reset_world))
      = Resp bad_reset_401"
    by (simp add: c v bad_reset_then_ok_def)
  have b: "\<not> rate_limit_ok bad_reset_401"
    by (simp add: rate_limit_ok_def parseRateLimitHeaders_def bad_reset_401_def valid_time_def)
  have t: "csrfToken bad_reset_world = Some ''cached''"
    by (simp add: bad_reset_world_def)
  note e = apiRequest_throws [OF a b, of ENDPOINT_PROJECTS get_options]
  have 1: "fst (apiRequest ENDPOINT_PROJECTS get_options bad_reset_world)
      = Inl (new_ExtensionError SERVER_ERROR (Some ''UNKNOWN_ERROR'') None)"
    by (simp add: e)
  have 2: "length (calls_at ApiSite (snd (apiRequest ENDPOINT_PROJECTS get_options bad_reset_world)))
      = 1"
    by (simp add: e send_request_facts c)
  have 3: "csrfToken (snd (apiRequest ENDPOINT_PROJECTS get_options bad_reset_world))
      = Some ''cached''"
    by (simp add: e send_request_get_token t)
  have 4: "status bad_reset_401 = UNAUTHORIZED" "hdr_reset bad_reset_401 = Some NaN"
    by (simp_all add: bad_reset_401_def UNAUTHORIZED_def)
  have 5: "apiServer bad_reset_world (length (calls_at ApiSite bad_reset_world) + 1)
       = Resp (plain_response 200 ''OK'' (Inr (data_body ''projects'')))"
    by (simp add: c v bad_reset_then_ok_def)
  from a 1 2 3 4 5 show ?thesis by simp
qed

subsection \<open>Rate-limit errors\<close>

text \<open>
  C4 (amended): on status 429 the client throws an \<open>ExtensionError\<close> with code
  \<open>RATE_LIMIT\<close>, status code 429 and the fixed message \<open>RATE_LIMIT_EXCEEDED\<close>,
  whatever the body of the response says: \<open>handleErrorResponse\<close> builds that error for
  every 429 response, and \<open>apiRequest\<close> returns it for every 429 response whose
  rate-limit headers are absent or hold a reset time that \<open>Date\<close> can represent. The
  rejection of a \<open>throttle\<close> call on a full queue is a plain \<open>Error\<close> with the message
  \<open>queue_full_message\<close>.
\<close>

theorem rate_limit_errors:
  "(status r = TOO_MANY_REQUESTS \<longrightarrow>
      handleErrorResponse r
        = \<lparr> cls = ExtensionError, message = RATE_LIMIT_EXCEEDED, code = Some ''RATE_LIMIT'',
            statusCode = Some 429 \<rparr>)
   \<and> (apiServer w (length (calls_at ApiSite w)) = Resp r \<and> status r = TOO_MANY_REQUESTS
        \<and> rate_limit_ok r \<longrightarrow>
      fst (apiRequest endpoint options w)
        = Inl \<lparr> cls = ExtensionError, message = RATE_LIMIT_EXCEEDED, code = Some ''RATE_LIMIT'',
                statusCode = Some 429 \<rparr>)
   \<and> (real (length (queue s)) \<ge> maxQueueSize s \<longrightarrow>
      fst (throttle f prio now s)
        = Inl \<lparr> cls = Error, message = queue_full_message, code = None, statusCode = None \<rparr>)"
proof (intro conjI impI)
  assume "status r = TOO_MANY_REQUESTS"
  then show "handleErrorResponse r
        = \<lparr> cls = ExtensionError, message = RATE_LIMIT_EXCEEDED, code = Some ''RATE_LIMIT'',
            statusCode = Some 429 \<rparr>"
    by (simp add: handleErrorResponse_429 new_ExtensionError_def TOO_MANY_REQUESTS_def)
next
  assume a: "apiServer w (length (calls_at ApiSite w)) = Resp r \<and> status r = TOO_MANY_REQUESTS
        \<and> rate_limit_ok r"
  then have d: "\<not> (retry_enabled options
      \<and> (\<exists>r1. apiServer w (length (calls_at ApiSite w)) = Resp r1 \<and> status r1 = UNAUTHORIZED))"
    by (simp add: TOO_MANY_REQUESTS_def UNAUTHORIZED_def)
  have k: "\<forall>r'. apiServer w (length (calls_at ApiSite w)) = Resp r' \<longrightarrow> rate_limit_ok r'"
    using a by simp
  have n: "\<not> ok r" using a by (simp add: ok_def TOO_MANY_REQUESTS_def)
  have "fst (apiRequest endpoint options w) = classify (Inr r)"
    using apiRequest_direct_result [OF d k, of endpoint] a by (simp add: answer_of_def)
  also have "\<dots> = Inl (handleErrorResponse r)"
    using n by (simp add: classify_def)
  also have "handleErrorResponse r
      = \<lparr> cls = ExtensionError, message = RATE_LIMIT_EXCEEDED, code = Some ''RATE_LIMIT'',
          statusCode = Some 429 \<rparr>"
    using a by (simp add: handleErrorResponse_429 new_ExtensionError_def TOO_MANY_REQUESTS_def)
  finally show "fst (apiRequest endpoint options w)
        = Inl \<lparr> cls = ExtensionError, message = RATE_LIMIT_EXCEEDED, code = Some ''RATE_LIMIT'',
                statusCode = Some 429 \<rparr>" .
next
  assume "real (length (queue s)) \<ge> maxQueueSize s"
  then show "fst (throttle f prio now s)
        = Inl \<lparr> cls = Error, message = queue_full_message, code = None, statusCode = None \<rparr>"
    by (simp add: throttle_def new_Error_def)
qed

theorem rate_limit_errors_witness:
  "status slow_down_response = TOO_MANY_REQUESTS
   \<and> rate_limit_ok slow_down_response
   \<and> handleErrorResponse slow_down_response
       = \<lparr> cls = ExtensionError, message = RATE_LIMIT_EXCEEDED, code = Some ''RATE_LIMIT'',
           statusCode = Some 429 \<rparr>
   \<and> apiServer (example_world always_slow_down server_down)
        (length (calls_at ApiSite (example_world always_slow_down server_down)))
       = Resp slow_down_response
   \<and> fst (apiRequest ENDPOINT_PROJECTS get_options (example_world always_slow_down server_down))
       = Inl \<lparr> cls = ExtensionError, message = RATE_LIMIT_EXCEEDED, code = Some ''RATE_LIMIT'',
               statusCode = Some 429 \<rparr>
   \<and> real (length (queue full_example)) \<ge> maxQueueSize full_example
   \<and> fst (throttle ''d'' 0 1003 full_example)
       = Inl \<lparr> cls = Error, message = queue_full_message, code = None, statusCode = None \<rparr>"
proof -
  let ?w = "example_world always_slow_down server_down"
  have a: "apiServer ?w (length (calls_at ApiSite ?w)) = Resp slow_down_response"
    by (simp add: always_slow_down_def)
  have b: "real (length (queue full_example)) \<ge> maxQueueSize full_example"
    by (simp add: full_example_eq)
  have k: "rate_limit_ok slow_down_response"
    by (simp add: rate_limit_ok_def slow_down_response_def)
  note t = rate_limit_errors [of slow_down_response ?w ENDPOINT_PROJECTS get_options
      full_example "''d''" 0 1003]
  from t a b k slow_down_facts(1) show ?thesis by blast
qed

text \<open>
  The claim as written fails: with the body \<open>{"error": "slow down"}\<close> the message of
  the thrown error is not \<open>slow down\<close>, and neither error is of a class of its own.
\<close>

theorem rate_limit_message_counterexample:
  "status slow_down_response = 429
   \<and> json slow_down_response = Inr (error_body ''slow down'')
   \<and> error_field (error_body ''slow down'') = Some ''slow down''
   \<and> message (handleErrorResponse slow_down_response) \<noteq> ''slow down''
   \<and> cls (handleErrorResponse slow_down_response) = ExtensionError
   \<and> fst (throttle ''d'' 0 1003 full_example) = Inl (new_Error queue_full_message)
   \<and> cls (new_Error queue_full_message) = Error"
proof -
  have h: "handleErrorResponse slow_down_response
      = new_ExtensionError RATE_LIMIT_EXCEEDED (Some ''RATE_LIMIT'') (Some TOO_MANY_REQUESTS)"
    using slow_down_facts(1) by (rule handleErrorResponse_429)
  have m: "message (handleErrorResponse slow_down_response) \<noteq> ''slow down''"
    by (simp add: h new_ExtensionError_def RATE_LIMIT_EXCEEDED_def)
  have c: "cls (handleErrorResponse slow_down_response) = ExtensionError"
    by (simp add: h new_ExtensionError_def)
  have t: "fst (throttle ''d'' 0 1003 full_example) = Inl (new_Error queue_full_message)"
    by (simp add: throttle_def full_example_eq)
  from m c t slow_down_facts show ?thesis
    by (simp add: TOO_MANY_REQUESTS_def error_body_def new_Error_def)
qed

subsection \<open>A failed anti-forgery token\<close>

lemma attach_cookie_csrf_header [simp]:
  "fst (attach_cookie options hs w) ''X-CSRF-Token'' = hs ''X-CSRF-Token''"
  by (simp add: attach_cookie_def split: option.splits list.splits)

lemma attach_cookie_world:
  "\<exists>c. snd (attach_cookie options hs w) = w\<lparr> console := c \<rparr>"
proof (cases "\<not> skip_auth options \<and> cookies w = None")
  case True
  then show ?thesis by (auto simp: attach_cookie_def)
next
  case False
  then have "snd (attach_cookie options hs w) = w"
    by (auto simp: attach_cookie_def split: option.splits list.splits)
  then have "snd (attach_cookie options hs w) = w\<lparr> console := console w \<rparr>" by simp
  then show ?thesis by blast
qed

lemma getCsrfToken_console:
  "isl (fst (getCsrfToken (w\<lparr> console := c \<rparr>))) = isl (fst (getCsrfToken w))"
  by (simp add: getCsrfToken_def fetchCsrfToken_def fetchWithTimeout_def Let_def calls_at_def
      getApiBaseUrl_def split: sum.splits)

lemma attach_csrf_failed:
  assumes "needs_csrf options" and "isl (fst (getCsrfToken w))"
  shows "fst (attach_csrf options hs w) = hs"
    and "csrf_warning \<in> set (console (snd (attach_csrf options hs w)))"
proof -
  obtain e w' where g: "getCsrfToken w = (Inl e, w')"
    using assms(2) by (cases "getCsrfToken w") (auto simp: isl_def)
  show "fst (attach_csrf options hs w) = hs"
    using assms(1) g by (simp add: attach_csrf_def)
  show "csrf_warning \<in> set (console (snd (attach_csrf options hs w)))"
    using assms(1) g by (simp add: attach_csrf_def)
qed

lemma compose_request_csrf_failed:
  assumes "needs_csrf options" and "isl (fst (getCsrfToken w))"
  shows "req_headers (fst (compose_request endpoint options w)) ''X-CSRF-Token''
           = headers options ''X-CSRF-Token''"
    and "csrf_warning \<in> set (console (snd (compose_request endpoint options w)))"
proof -
  let ?hs = "[''Content-Type'' \<mapsto> ''application/json''] ++ headers options"
  obtain hs1 w1 where c: "attach_cookie options ?hs w = (hs1, w1)"
    by (cases "attach_cookie options ?hs w")
  obtain hs2 w2 where t: "attach_csrf options hs1 w1 = (hs2, w2)"
    by (cases "attach_csrf options hs1 w1")
  have h1: "hs1 ''X-CSRF-Token'' = ?hs ''X-CSRF-Token''"
    using attach_cookie_csrf_header [of options ?hs w] c by simp
  obtain cs where "w1 = w\<lparr> console := cs \<rparr>"
    using attach_cookie_world [of options ?hs w] c by auto
  then have f: "isl (fst (getCsrfToken w1))"
    using assms(2) by (simp add: getCsrfToken_console)
  have h2: "hs2 = hs1" using attach_csrf_failed(1) [OF assms(1) f, of hs1] t by simp
  have k: "csrf_warning \<in> set (console w2)"
    using attach_csrf_failed(2) [OF assms(1) f, of hs1] t by simp
  have b: "?hs ''X-CSRF-Token'' = headers options ''X-CSRF-Token''"
    by (simp add: map_add_def split: option.splits)
  show "req_headers (fst (compose_request endpoint options w)) ''X-CSRF-Token''
           = headers options ''X-CSRF-Token''"
    using c t h1 h2 b by (simp add: compose_request_def Let_def)
  show "csrf_warning \<in> set (console (snd (compose_request endpoint options w)))"
    using c t k by (simp add: compose_request_def Let_def)
qed

lemma compose_request_csrf_fetched:
  assumes "needs_csrf options" and "csrfToken w = None" and "storage w KEY_CSRF_TOKEN = None"
    and "csrfServer w (length (calls_at CsrfSite w)) = Resp r" and "ok r"
    and "hdr_csrf r = Some tok" and "tok \<noteq> []"
  shows "req_headers (fst (compose_request endpoint options w)) ''X-CSRF-Token'' = Some tok"
  using assms
  by (auto simp: compose_request_def attach_cookie_def attach_csrf_def getCsrfToken_def
      fetchCsrfToken_def fetchWithTimeout_def answer_of_def truthy_def Let_def calls_at_def
      split: option.splits list.splits)

lemma first_send_example:
  "csrfServer (snd (send_request ENDPOINT_PROJECTS post_options
      (example_world unauthorized_then_ok down_then_token))) = down_then_token"
  "length (calls_at CsrfSite (snd (send_request ENDPOINT_PROJECTS post_options
      (example_world unauthorized_then_ok down_then_token)))) = 1"
  by (simp_all add: send_request_def compose_request_def attach_cookie_def attach_csrf_def
      getCsrfToken_def fetchCsrfToken_def fetchWithTimeout_def answer_of_def truthy_def Let_def
      calls_at_def example_world_def down_then_token_def ok_def plain_response_def
      needs_csrf_def post_options_def skip_auth_def)

lemma noted_csrf [simp]:
  "csrfServer (noted r w) = csrfServer w"
  by (simp add: noted_def note_rate_limit_def split: option.splits sum.splits)

lemma clearCsrfToken_csrfServer [simp]: "csrfServer (clearCsrfToken w) = csrfServer w"
  by (simp add: clearCsrfToken_def)

lemma down_then_token_csrf:
  "isl (fst (getCsrfToken (example_world api down_then_token)))"
  by (simp add: getCsrfToken_def fetchCsrfToken_def fetchWithTimeout_def answer_of_def
      truthy_def Let_def down_then_token_def ok_def)

lemma plain_response_ok [simp]: "rate_limit_ok (plain_response st txt b)"
  by (simp add: rate_limit_ok_def)

text \<open>
  C10 (amended): when a request that needs the anti-forgery token (authenticated, method
  other than \<open>GET\<close>) cannot obtain it, the call goes on: the warning is logged and the
  request is sent with no \<open>X-CSRF-Token\<close> header of the client's (the header has the
  value the caller gave it, if any). For a server answer whose rate-limit headers are
  absent or hold a reset time that \<open>Date\<close> can represent: unless the answer is a 401
  with the retry enabled, the caller gets the classification of that answer, not the
  failure of the token; on a 401 with the retry enabled the call is the call with the
  retry disabled in the world where the cached token has been discarded, which composes
  the request anew (asking for the token again) and sends it a second time, and the
  caller gets the classification of the answer to that second request.
\<close>

theorem csrf_failure_not_fatal:
  assumes "needs_csrf options" and "isl (fst (getCsrfToken w))"
  shows "req_headers (fst (compose_request endpoint options w)) ''X-CSRF-Token''
           = headers options ''X-CSRF-Token''
     \<and> csrf_warning \<in> set (console (snd (compose_request endpoint options w)))
     \<and> calls_at ApiSite (snd (send_request endpoint options w))
           = calls_at ApiSite w @ [fst (compose_request endpoint options w)]
     \<and> fst (send_request endpoint options w)
           = answer_of REQUEST_TIMEOUT_MS (apiServer w (length (calls_at ApiSite w)))
     \<and> ((\<forall>r. apiServer w (length (calls_at ApiSite w)) = Resp r
              \<longrightarrow> rate_limit_ok r \<and> \<not> (status r = UNAUTHORIZED \<and> retry_enabled options))
        \<longrightarrow> fst (apiRequest endpoint options w)
              = classify (answer_of REQUEST_TIMEOUT_MS
                           (apiServer w (length (calls_at ApiSite w)))))
     \<and> (apiServer w (length (calls_at ApiSite w)) = Resp r1 \<and> status r1 = UNAUTHORIZED
          \<and> retry_enabled options \<and> rate_limit_ok r1
        \<longrightarrow> apiRequest endpoint options w
              = apiRequest endpoint (options\<lparr> retryOn401 := Some False \<rparr>)
                  (clearCsrfToken (noted r1 (snd (send_request endpoint options w))))
            \<and> length (calls_at ApiSite (snd (apiRequest endpoint options w)))
                = length (calls_at ApiSite w) + 2
            \<and> ((\<forall>r2. apiServer w (length (calls_at ApiSite w) + 1) = Resp r2
                      \<longrightarrow> rate_limit_ok r2)
               \<longrightarrow> fst (apiRequest endpoint options w)
                     = classify (answer_of REQUEST_TIMEOUT_MS
                                  (apiServer w (length (calls_at ApiSite w) + 1)))))"
proof (intro conjI impI)
  show "req_headers (fst (compose_request endpoint options w)) ''X-CSRF-Token''
           = headers options ''X-CSRF-Token''"
    using assms by (rule compose_request_csrf_failed(1))
  show "csrf_warning \<in> set (console (snd (compose_request endpoint options w)))"
    using assms by (rule compose_request_csrf_failed(2))
  show "calls_at ApiSite (snd (send_request endpoint options w))
           = calls_at ApiSite w @ [fst (compose_request endpoint options w)]"
    by (rule send_request_facts(2))
  show "fst (send_request endpoint options w)
           = answer_of REQUEST_TIMEOUT_MS (apiServer w (length (calls_at ApiSite w)))"
    by (rule send_request_facts(1))
next
  assume a: "\<forall>r. apiServer w (length (calls_at ApiSite w)) = Resp r
              \<longrightarrow> rate_limit_ok r \<and> \<not> (status r = UNAUTHORIZED \<and> retry_enabled options)"
  then have d: "\<not> (retry_enabled options
      \<and> (\<exists>r1. apiServer w (length (calls_at ApiSite w)) = Resp r1 \<and> status r1 = UNAUTHORIZED))"
    by blast
  have k: "\<forall>r. apiServer w (length (calls_at ApiSite w)) = Resp r \<longrightarrow> rate_limit_ok r"
    using a by blast
  show "fst (apiRequest endpoint options w)
      = classify (answer_of REQUEST_TIMEOUT_MS (apiServer w (length (calls_at ApiSite w))))"
    using d k by (rule apiRequest_direct_result)
next
  assume a: "apiServer w (length (calls_at ApiSite w)) = Resp r1 \<and> status r1 = UNAUTHORIZED
          \<and> retry_enabled options \<and> rate_limit_ok r1"
  then have h: "retry_enabled options" "apiServer w (length (calls_at ApiSite w)) = Resp r1"
    "status r1 = UNAUTHORIZED" "rate_limit_ok r1"
    by simp_all
  show "apiRequest endpoint options w
      = apiRequest endpoint (options\<lparr> retryOn401 := Some False \<rparr>)
          (clearCsrfToken (noted r1 (snd (send_request endpoint options w))))"
    using h by (rule apiRequest_retry_once(1))
  show "length (calls_at ApiSite (snd (apiRequest endpoint options w)))
      = length (calls_at ApiSite w) + 2"
    using h by (rule apiRequest_retry_once(4))
  assume "\<forall>r2. apiServer w (length (calls_at ApiSite w) + 1) = Resp r2 \<longrightarrow> rate_limit_ok r2"
  with h show "fst (apiRequest endpoint options w)
      = classify (answer_of REQUEST_TIMEOUT_MS (apiServer w (length (calls_at ApiSite w) + 1)))"
    by (rule apiRequest_retry_once(5))
qed

theorem csrf_failure_not_fatal_witness:
  "needs_csrf post_options
   \<and> isl (fst (getCsrfToken (example_world always_ok server_down)))
   \<and> req_headers (fst (compose_request ENDPOINT_PROJECTS post_options
        (example_world always_ok server_down))) ''X-CSRF-Token'' = None
   \<and> csrf_warning \<in> set (console (snd (compose_request ENDPOINT_PROJECTS post_options
        (example_world always_ok server_down))))
   \<and> length (calls_at ApiSite (snd (send_request ENDPOINT_PROJECTS post_options
        (example_world always_ok server_down)))) = 1
   \<and> fst (apiRequest ENDPOINT_PROJECTS post_options (example_world always_ok server_down))
       = Inr ''projects''
   \<and> isl (fst (getCsrfToken (example_world unauthorized_then_ok down_then_token)))
   \<and> length (calls_at ApiSite (snd (apiRequest ENDPOINT_PROJECTS post_options
        (example_world unauthorized_then_ok down_then_token)))) = 2
   \<and> fst (apiRequest ENDPOINT_PROJECTS post_options
        (example_world unauthorized_then_ok down_then_token)) = Inr ''projects''"
proof -
  let ?w = "example_world always_ok server_down"
  let ?v = "example_world unauthorized_then_ok down_then_token"
  let ?r401 = "plain_response 401 ''Unauthorized'' (Inr (error_body ''expired'')) :: string Response"
  let ?r200 = "plain_response 200 ''OK'' (Inr (data_body ''projects'')) :: string Response"
  have d: "\<forall>r. apiServer ?w (length (calls_at ApiSite ?w)) = Resp r
      \<longrightarrow> rate_limit_ok r \<and> \<not> (status r = UNAUTHORIZED \<and> retry_enabled post_options)"
    by (simp add: always_ok_facts UNAUTHORIZED_def)
  have "classify (answer_of REQUEST_TIMEOUT_MS (apiServer ?w (length (calls_at ApiSite ?w))))
      = Inr (payload (data_body ''projects''))"
    by (simp add: always_ok_facts classify_def answer_of_def)
  then have c: "classify (answer_of REQUEST_TIMEOUT_MS (apiServer ?w (length (calls_at ApiSite ?w))))
      = Inr ''projects''"
    by (simp add: data_body_def)
  have h: "headers post_options ''X-CSRF-Token'' = None" by (simp add: post_options_def)
  note t = csrf_failure_not_fatal [OF needs_csrf_post server_down_csrf,
      of ENDPOINT_PROJECTS always_ok ?r401]
  have "req_headers (fst (compose_request ENDPOINT_PROJECTS post_options ?w)) ''X-CSRF-Token''
      = headers post_options ''X-CSRF-Token''"
    using t by blast
  then have 1: "req_headers (fst (compose_request ENDPOINT_PROJECTS post_options ?w)) ''X-CSRF-Token''
      = None"
    using h by simp
  have 2: "csrf_warning \<in> set (console (snd (compose_request ENDPOINT_PROJECTS post_options ?w)))"
    using t by blast
  have "calls_at ApiSite (snd (send_request ENDPOINT_PROJECTS post_options ?w))
      = calls_at ApiSite ?w @ [fst (compose_request ENDPOINT_PROJECTS post_options ?w)]"
    using t by blast
  then have 3: "length (calls_at ApiSite (snd (send_request ENDPOINT_PROJECTS post_options ?w))) = 1"
    by simp
  have "fst (apiRequest ENDPOINT_PROJECTS post_options ?w)
      = classify (answer_of REQUEST_TIMEOUT_MS (apiServer ?w (length (calls_at ApiSite ?w))))"
    using t d by blast
  then have 4: "fst (apiRequest ENDPOINT_PROJECTS post_options ?w) = Inr ''projects''"
    using c by simp
  have v0: "apiServer ?v (length (calls_at ApiSite ?v)) = Resp ?r401"
    by (simp add: unauthorized_then_ok_def)
  have v1: "apiServer ?v (length (calls_at ApiSite ?v) + 1) = Resp ?r200"
    by (simp add: unauthorized_then_ok_def)
  have s: "status ?r401 = UNAUTHORIZED" by (simp add: UNAUTHORIZED_def)
  have k1: "rate_limit_ok ?r401" by simp
  have k2: "\<forall>r2. apiServer ?v (length (calls_at ApiSite ?v) + 1) = Resp r2 \<longrightarrow> rate_limit_ok r2"
    using v1 by simp
  have re: "retry_enabled post_options" by simp
  note u = csrf_failure_not_fatal [OF needs_csrf_post down_then_token_csrf,
      of ENDPOINT_PROJECTS unauthorized_then_ok ?r401]
  have "length (calls_at ApiSite (snd (apiRequest ENDPOINT_PROJECTS post_options ?v)))
      = length (calls_at ApiSite ?v) + 2"
    using u v0 s re k1 by blast
  then have 5: "length (calls_at ApiSite (snd (apiRequest ENDPOINT_PROJECTS post_options ?v))) = 2"
    by simp
  have "fst (apiRequest ENDPOINT_PROJECTS post_options ?v)
      = classify (answer_of REQUEST_TIMEOUT_MS (apiServer ?v (length (calls_at ApiSite ?v) + 1)))"
    using u v0 s re k1 k2 by blast
  also have "\<dots> = Inr ''projects''"
    by (simp add: unauthorized_then_ok_def classify_def answer_of_def ok_def data_body_def)
  finally have 6: "fst (apiRequest ENDPOINT_PROJECTS post_options ?v) = Inr ''projects''" .
  from 1 2 3 4 5 6 server_down_csrf [of always_ok] down_then_token_csrf [of unauthorized_then_ok]
  show ?thesis by simp
qed

text \<open>
  The claim as written fails when the answer to the token-less request is a 401 and the
  retry is enabled: the request is composed a second time, now with the token that the
  second attempt obtains, and the caller gets the answer to that second request. Here
  the first request to the CSRF endpoint fails and the second succeeds; the two requests
  sent carry no \<open>X-CSRF-Token\<close> header and the header \<open>tok\<close>, and the caller gets the
  payload of the second response, not the \<open>AuthenticationError\<close> that the 401 response
  to the token-less request stands for.
\<close>

theorem csrf_failure_retry_counterexample:
  "needs_csrf post_options
   \<and> isl (fst (getCsrfToken (example_world unauthorized_then_ok down_then_token)))
   \<and> map (\<lambda>c. req_headers c ''X-CSRF-Token'')
        (calls_at ApiSite (snd (apiRequest ENDPOINT_PROJECTS post_options
           (example_world unauthorized_then_ok down_then_token))))
       = [None, Some ''tok'']
   \<and> fst (apiRequest ENDPOINT_PROJECTS post_options
        (example_world unauthorized_then_ok down_then_token)) = Inr ''projects''
   \<and> classify (answer_of REQUEST_TIMEOUT_MS (unauthorized_then_ok 0))
       = Inl (new_AuthenticationError ''expired'')
   \<and> fst (apiRequest ENDPOINT_PROJECTS post_options
        (example_world unauthorized_then_ok down_then_token))
       \<noteq> classify (answer_of REQUEST_TIMEOUT_MS (unauthorized_then_ok 0))"
proof -
  let ?v = "example_world unauthorized_then_ok down_then_token"
  let ?r401 = "plain_response 401 ''Unauthorized'' (Inr (error_body ''expired'')) :: string Response"
  let ?o = "post_options\<lparr> retryOn401 := Some False \<rparr>"
  let ?v1 = "clearCsrfToken (noted ?r401 (snd (send_request ENDPOINT_PROJECTS post_options ?v)))"
  have v0: "apiServer ?v (length (calls_at ApiSite ?v)) = Resp ?r401"
    by (simp add: unauthorized_then_ok_def)
  have s: "status ?r401 = UNAUTHORIZED" by (simp add: UNAUTHORIZED_def)
  have re: "retry_enabled post_options" by simp
  have k1: "rate_limit_ok ?r401" by simp
  have k2: "\<forall>r2. apiServer ?v (length (calls_at ApiSite ?v) + 1) = Resp r2 \<longrightarrow> rate_limit_ok r2"
    by (simp add: unauthorized_then_ok_def)
  note r = apiRequest_retry_once [OF re v0 s k1, of ENDPOINT_PROJECTS]
  have eq: "apiRequest ENDPOINT_PROJECTS post_options ?v = apiRequest ENDPOINT_PROJECTS ?o ?v1"
    by (rule r(1))
  have "fst (apiRequest ENDPOINT_PROJECTS post_options ?v)
      = classify (answer_of REQUEST_TIMEOUT_MS (apiServer ?v (length (calls_at ApiSite ?v) + 1)))"
    using k2 by (rule r(5))
  also have "\<dots> = Inr ''projects''"
    by (simp add: unauthorized_then_ok_def classify_def answer_of_def ok_def data_body_def)
  finally have 1: "fst (apiRequest ENDPOINT_PROJECTS post_options ?v) = Inr ''projects''" .
  have c1: "calls_at ApiSite ?v1 = [fst (compose_request ENDPOINT_PROJECTS post_options ?v)]"
    by (simp add: noted_facts send_request_facts)
  have "calls_at ApiSite (snd (apiRequest ENDPOINT_PROJECTS ?o ?v1))
      = calls_at ApiSite ?v1 @ [fst (compose_request ENDPOINT_PROJECTS ?o ?v1)]"
    by (rule apiRequest_direct(1)) simp
  then have c2: "calls_at ApiSite (snd (apiRequest ENDPOINT_PROJECTS post_options ?v))
      = [fst (compose_request ENDPOINT_PROJECTS post_options ?v),
         fst (compose_request ENDPOINT_PROJECTS ?o ?v1)]"
    using eq c1 by simp
  have h1: "req_headers (fst (compose_request ENDPOINT_PROJECTS post_options ?v)) ''X-CSRF-Token''
      = None"
    using compose_request_csrf_failed(1) [OF needs_csrf_post down_then_token_csrf,
        of ENDPOINT_PROJECTS unauthorized_then_ok]
    by (simp add: post_options_def)
  have h2: "req_headers (fst (compose_request ENDPOINT_PROJECTS ?o ?v1)) ''X-CSRF-Token''
      = Some ''tok''"
  proof (rule compose_request_csrf_fetched)
    show "needs_csrf ?o" by simp
    show "csrfToken ?v1 = None" by simp
    show "storage ?v1 KEY_CSRF_TOKEN = None" by simp
    show "csrfServer ?v1 (length (calls_at CsrfSite ?v1)) = Resp token_response"
      by (simp add: noted_facts first_send_example down_then_token_def)
    show "ok token_response" by (simp add: token_response_def ok_def)
    show "hdr_csrf token_response = Some ''tok''" by (simp add: token_response_def)
    show "''tok'' \<noteq> []" by simp
  qed
  have 2: "map (\<lambda>c. req_headers c ''X-CSRF-Token'')
        (calls_at ApiSite (snd (apiRequest ENDPOINT_PROJECTS post_options ?v)))
       = [None, Some ''tok'']"
    by (simp add: c2 h1 h2)
  have 3: "classify (answer_of REQUEST_TIMEOUT_MS (unauthorized_then_ok 0))
      = Inl (new_AuthenticationError ''expired'')"
    by (simp add: unauthorized_then_ok_def classify_def answer_of_def ok_def plain_response_def
        handleErrorResponse_def error_body_def UNAUTHORIZED_def str_or_def Let_def
        catch_error_def instanceof_ExtensionError_def new_AuthenticationError_def)
  from 1 2 3 down_then_token_csrf [of unauthorized_then_ok] show ?thesis by simp
qed

subsection \<open>The read operations\<close>

lemma call_read_registered:
  assumes "registered (operationKey op) p (dedup c)"
  shows "fst (call_read op c) = p"
    and "world (snd (call_read op c)) = world c"
    and "promises (dedup (snd (call_read op c))) = promises (dedup c)"
    and "registered (operationKey op) p (dedup (snd (call_read op c)))"
  using assms
  by (simp_all add: call_read_def dedupe_def registered_def split: prod.splits)

lemma call_read_n_registered:
  "registered (operationKey op) p (dedup c) \<Longrightarrow>
   fst (call_read_n op n c) = replicate n p
   \<and> world (snd (call_read_n op n c)) = world c
   \<and> promises (dedup (snd (call_read_n op n c))) = promises (dedup c)"
proof (induction n arbitrary: c)
  case 0
  then show ?case by simp
next
  case (Suc n)
  obtain q c1 where r: "call_read op c = (q, c1)" by (cases "call_read op c")
  have q: "q = p" "world c1 = world c" "promises (dedup c1) = promises (dedup c)"
    "registered (operationKey op) p (dedup c1)"
    using call_read_registered [OF Suc.prems] r by simp_all
  from Suc.IH [OF q(4)] q r show ?case by (simp add: split_beta)
qed

lemma call_read_first:
  assumes "pending (dedup c) (operationKey op) = None"
  shows "fst (call_read op c) = length (promises (dedup c))"
    and "world (snd (call_read op c)) = world c"
    and "promises (dedup (snd (call_read op c)))
           = promises (dedup c)
             @ [\<lparr> supplier = read_call op, cleanup_key = operationKey op, outcome = None \<rparr>]"
    and "registered (operationKey op) (length (promises (dedup c))) (dedup (snd (call_read op c)))"
  using assms
  by (simp_all add: call_read_def dedupe_def registered_def Let_def)

lemma call_read_n_first:
  assumes "pending (dedup c) (operationKey op) = None" and "0 < n"
  shows "fst (call_read_n op n c) = replicate n (length (promises (dedup c)))"
    and "world (snd (call_read_n op n c)) = world c"
    and "promises (dedup (snd (call_read_n op n c)))
           = promises (dedup c)
             @ [\<lparr> supplier = read_call op, cleanup_key = operationKey op, outcome = None \<rparr>]"
proof -
  obtain m where n: "n = Suc m" using assms(2) by (cases n) auto
  obtain q c1 where r: "call_read op c = (q, c1)" by (cases "call_read op c")
  have q: "q = length (promises (dedup c))" "world c1 = world c"
    "promises (dedup c1) = promises (dedup c)
       @ [\<lparr> supplier = read_call op, cleanup_key = operationKey op, outcome = None \<rparr>]"
    "registered (operationKey op) (length (promises (dedup c))) (dedup c1)"
    using call_read_first [OF assms(1)] r by simp_all
  note rest = call_read_n_registered [OF q(4), of m]
  show "fst (call_read_n op n c) = replicate n (length (promises (dedup c)))"
    using rest q r n by (simp add: split_beta)
  show "world (snd (call_read_n op n c)) = world c"
    using rest q r n by (simp add: split_beta)
  show "promises (dedup (snd (call_read_n op n c)))
           = promises (dedup c)
             @ [\<lparr> supplier = read_call op, cleanup_key = operationKey op, outcome = None \<rparr>]"
    using rest q r n by (simp add: split_beta)
qed

lemma complete_pending:
  assumes "promises (dedup c) = ps @ [\<lparr> supplier = call, cleanup_key = key, outcome = None \<rparr>]"
  shows "world (complete_call (length ps) c)
           = snd (apiRequest (call_endpoint call) (call_options call) (world c))"
    and "observed (length ps) (dedup (complete_call (length ps) c))
           = Some (fst (apiRequest (call_endpoint call) (call_options call) (world c)))"
    and "pending (dedup (complete_call (length ps) c)) key = None"
  using assms
  by (simp_all add: complete_call_def Let_def split_beta settle_def observed_def)

lemma invoked_append:
  "promises d' = promises d @ [\<lparr> supplier = f, cleanup_key = key, outcome = None \<rparr>]
   \<Longrightarrow> invoked key d' = invoked key d @ [f]"
  by (simp add: invoked_def)

text \<open>
  C1 (amended): every read operation is \<open>dedupe\<close> applied to its key and to the thunk
  that calls \<open>apiRequest\<close> for its endpoint with method \<open>GET\<close>. When the key is not
  pending, \<open>n\<close> concurrent calls of the operation return one promise and call the thunk
  once; that one \<open>apiRequest\<close> sends the request once or twice and its result is what
  all callers observe. No call passes through the rate limiter: its queue and its
  counters are as before, and its token count changes only by what \<open>updateFromHeaders\<close>
  makes of the response headers.
\<close>

theorem reads_deduplicated_not_throttled:
  assumes "pending (dedup c) (operationKey op) = None" and "0 < n"
  shows "fst (call_read_n op n c) = replicate n (length (promises (dedup c)))
     \<and> invoked (operationKey op) (dedup (snd (call_read_n op n c)))
         = invoked (operationKey op) (dedup c) @ [read_call op]
     \<and> world (snd (call_read_n op n c)) = world c
     \<and> world (complete_call (length (promises (dedup c))) (snd (call_read_n op n c)))
         = snd (apiRequest (read_endpoint op) get_options (world c))
     \<and> observed (length (promises (dedup c)))
          (dedup (complete_call (length (promises (dedup c))) (snd (call_read_n op n c))))
         = Some (fst (apiRequest (read_endpoint op) get_options (world c)))
     \<and> length (calls_at ApiSite (world c)) + 1
         \<le> length (calls_at ApiSite
              (world (complete_call (length (promises (dedup c))) (snd (call_read_n op n c)))))
     \<and> length (calls_at ApiSite
              (world (complete_call (length (promises (dedup c))) (snd (call_read_n op n c)))))
         \<le> length (calls_at ApiSite (world c)) + 2
     \<and> tokens_only (limiter (world c))
         (limiter (world (complete_call (length (promises (dedup c))) (snd (call_read_n op n c)))))"
proof -
  let ?c = "snd (call_read_n op n c)" and ?p = "length (promises (dedup c))"
  note f = call_read_n_first [OF assms]
  note k = complete_pending [OF f(3)]
  have w: "world (complete_call ?p ?c) = snd (apiRequest (read_endpoint op) get_options (world c))"
    using k(1) f(2) by (simp add: read_call_def)
  have o: "observed ?p (dedup (complete_call ?p ?c))
      = Some (fst (apiRequest (read_endpoint op) get_options (world c)))"
    using k(2) f(2) by (simp add: read_call_def)
  have i: "invoked (operationKey op) (dedup ?c) = invoked (operationKey op) (dedup c) @ [read_call op]"
    using f(3) by (rule invoked_append)
  show ?thesis
    using f(1) f(2) i w o apiRequest_calls_ge [of "world c" "read_endpoint op" get_options]
      apiRequest_calls_le [of "read_endpoint op" get_options "world c"]
      apiRequest_limiter [of "world c" "read_endpoint op" get_options]
    by simp
qed

theorem reads_deduplicated_not_throttled_witness:
  "pending (dedup (example_client unauthorized_then_ok)) (operationKey GetProjects) = None
   \<and> fst (call_read_n GetProjects 3 (example_client unauthorized_then_ok)) = [0, 0, 0]
   \<and> invoked (operationKey GetProjects)
        (dedup (snd (call_read_n GetProjects 3 (example_client unauthorized_then_ok))))
       = [read_call GetProjects]
   \<and> length (calls_at ApiSite (world (complete_call 0
        (snd (call_read_n GetProjects 3 (example_client unauthorized_then_ok)))))) \<le> 2
   \<and> queue (limiter (world (complete_call 0
        (snd (call_read_n GetProjects 3 (example_client unauthorized_then_ok)))))) = []
   \<and> totalRequests (limiter (world (complete_call 0
        (snd (call_read_n GetProjects 3 (example_client unauthorized_then_ok)))))) = 0"
proof -
  let ?c = "example_client unauthorized_then_ok"
  have p: "pending (dedup ?c) (operationKey GetProjects) = None" by simp
  have n: "0 < (3::nat)" by simp
  note t = reads_deduplicated_not_throttled [OF p n, unfolded example_client_sel(2) list.size(3)]
  have r: "fst (call_read_n GetProjects 3 ?c) = replicate 3 0" using t by blast
  have i: "invoked (operationKey GetProjects) (dedup (snd (call_read_n GetProjects 3 ?c)))
      = invoked (operationKey GetProjects) (dedup ?c) @ [read_call GetProjects]"
    using t by blast
  have u: "length (calls_at ApiSite (world (complete_call 0 (snd (call_read_n GetProjects 3 ?c)))))
      \<le> length (calls_at ApiSite (world ?c)) + 2"
    using t by blast
  have l: "tokens_only (limiter (world ?c))
      (limiter (world (complete_call 0 (snd (call_read_n GetProjects 3 ?c)))))"
    using t by blast
  have q: "queue (limiter (world (complete_call 0 (snd (call_read_n GetProjects 3 ?c))))) = []
    \<and> totalRequests (limiter (world (complete_call 0 (snd (call_read_n GetProjects 3 ?c))))) = 0"
  proof -
    obtain x where "limiter (world (complete_call 0 (snd (call_read_n GetProjects 3 ?c))))
        = (limiter (world ?c))\<lparr> tokens := x \<rparr>"
      using l by (auto simp: tokens_only_def)
    then show ?thesis by (simp add: globalRateLimiter_def new_RateLimiter_def Let_def)
  qed
  from r i u q p show ?thesis by (simp add: numeral_3_eq_3 invoked_def)
qed

text \<open>
  The claim as written fails: three concurrent \<open>getProjects\<close> calls make one network
  call while the limiter has admitted no request and holds all its tokens; with an
  empty bucket the call is made all the same.
\<close>

theorem reads_not_throttled_counterexample:
  "fst (call_read_n GetProjects 3 (example_client always_ok)) = [0, 0, 0]
   \<and> length (calls_at ApiSite
        (world (complete_call 0 (snd (call_read_n GetProjects 3 (example_client always_ok)))))) = 1
   \<and> totalRequests (limiter
        (world (complete_call 0 (snd (call_read_n GetProjects 3 (example_client always_ok)))))) = 0
   \<and> tokens (limiter
        (world (complete_call 0 (snd (call_read_n GetProjects 3 (example_client always_ok)))))) = 60
   \<and> tokens (limiter (world exhausted_client)) = 0
   \<and> length (calls_at ApiSite
        (world (complete_call 0 (snd (call_read_n GetProjects 3 exhausted_client))))) = 1
   \<and> observed 0 (dedup (complete_call 0 (snd (call_read_n GetProjects 3 exhausted_client))))
       = Some (Inr ''projects'')
   \<and> tokens (limiter
        (world (complete_call 0 (snd (call_read_n GetProjects 3 exhausted_client))))) = 0"
proof -
  let ?c = "example_client always_ok"
  let ?r = "plain_response 200 ''OK'' (Inr (data_body ''projects'')) :: string Response"
  have p: "pending (dedup ?c) (operationKey GetProjects) = None"
    "pending (dedup exhausted_client) (operationKey GetProjects) = None" by simp_all
  note f = call_read_n_first [OF p(1), of 3]
  note g = call_read_n_first [OF p(2), of 3]
  have f3: "promises (dedup (snd (call_read_n GetProjects 3 ?c)))
      = [] @ [\<lparr> supplier = read_call GetProjects, cleanup_key = operationKey GetProjects,
               outcome = None \<rparr>]"
    using f(3) by simp
  have g3: "promises (dedup (snd (call_read_n GetProjects 3 exhausted_client)))
      = [] @ [\<lparr> supplier = read_call GetProjects, cleanup_key = operationKey GetProjects,
               outcome = None \<rparr>]"
    using g(3) by simp
  note kf = complete_pending [OF f3]
  note kg = complete_pending [OF g3]
  have a: "apiServer (world ?c) (length (calls_at ApiSite (world ?c))) = Resp ?r"
    by (simp add: always_ok_facts)
  have b: "apiServer (world exhausted_client) (length (calls_at ApiSite (world exhausted_client)))
      = Resp ?r"
    by (simp add: always_ok_facts)
  note af = apiRequest_ok_plain [OF a always_ok_facts(2), of "data_body ''projects''"
      "call_endpoint (read_call GetProjects)" "call_options (read_call GetProjects)"]
  note ag = apiRequest_ok_plain [OF b always_ok_facts(2), of "data_body ''projects''"
      "call_endpoint (read_call GetProjects)" "call_options (read_call GetProjects)"]
  have 1: "fst (call_read_n GetProjects 3 ?c) = [0, 0, 0]"
    using f(1) by (simp add: numeral_3_eq_3)
  have wf: "world (complete_call 0 (snd (call_read_n GetProjects 3 ?c)))
      = snd (apiRequest (call_endpoint (read_call GetProjects))
               (call_options (read_call GetProjects)) (world ?c))"
    using kf(1) f(2) by simp
  have wg: "world (complete_call 0 (snd (call_read_n GetProjects 3 exhausted_client)))
      = snd (apiRequest (call_endpoint (read_call GetProjects))
               (call_options (read_call GetProjects)) (world exhausted_client))"
    using kg(1) g(2) by simp
  have og: "observed 0 (dedup (complete_call 0 (snd (call_read_n GetProjects 3 exhausted_client))))
      = Some (Inr ''projects'')"
    using kg(2) g(2) ag(1) by (simp add: data_body_def)
  have 2: "length (calls_at ApiSite (world (complete_call 0 (snd (call_read_n GetProjects 3 ?c))))) = 1"
    using wf af(2) by simp
  have 3: "limiter (world (complete_call 0 (snd (call_read_n GetProjects 3 ?c)))) = globalRateLimiter 0"
    using wf af(3) by simp
  have 4: "length (calls_at ApiSite
      (world (complete_call 0 (snd (call_read_n GetProjects 3 exhausted_client))))) = 1"
    using wg ag(2) by simp
  have 5: "limiter (world (complete_call 0 (snd (call_read_n GetProjects 3 exhausted_client))))
      = (globalRateLimiter 0)\<lparr> tokens := 0 \<rparr>"
    using wg ag(3) by simp
  from 1 2 3 4 5 og show ?thesis
    by (simp add: globalRateLimiter_def new_RateLimiter_def or_default_def Let_def)
qed

end
